theory Spec2Isabelle
  imports Main "HOL-Library.Multiset"
begin

section \<open>The environment of uploader.js\<close>

text \<open>
  The script talks to four collaborators: the process environment, the \<open>fs\<close> and
  \<open>path\<close> modules of the host, the clock, and the S3 client.  None of them is code of
  the script, so each is a field of the record \<open>env\<close> and every theorem below
  holds for all of them.  An error thrown or a promise rejected by a collaborator is a
  value: a \<open>js_error\<close> with the two properties the script reads.  The script only
  tests \<open>code\<close> for truth and for equality with a string, so it is a string or
  absent.  It stores and prints \<open>message\<close> as it is, so \<open>message\<close> is a JavaScript
  value: a string, \<open>null\<close> (what the SDK gives for an answer without a body) or
  \<open>undefined\<close>.
\<close>

datatype js_value = Str string | Null | Undefined

record js_error =
  err_code :: "string option"
  err_message :: js_value

text \<open>The string a template literal puts in place of a value.\<close>

definition js_to_string :: "js_value \<Rightarrow> string" where
  "js_to_string v = (case v of Str s \<Rightarrow> s | Null \<Rightarrow> ''null'' | Undefined \<Rightarrow> ''undefined'')"

record env =
  AWS_REGION :: "string option"
  AWS_ACCESS_KEY_ID :: "string option"
  AWS_SECRET_ACCESS_KEY :: "string option"
  readdirSync :: "string \<Rightarrow> js_error + string list"
  statSync_isFile :: "string \<Rightarrow> js_error + bool"
  readFileSync :: "string \<Rightarrow> js_error + string"
  writeFileSync :: "string \<Rightarrow> string \<Rightarrow> js_error option"
  headObject :: "string \<Rightarrow> string \<Rightarrow> js_error option"
  upload :: "string \<Rightarrow> string \<Rightarrow> string \<Rightarrow> js_error option"
  headBucket :: "string \<Rightarrow> js_error option"
  path_join :: "string \<Rightarrow> string \<Rightarrow> string"
  toISOString :: string

text \<open>
  \<open>headObject env bucket key\<close>, \<open>upload env bucket key body\<close> and
  \<open>headBucket env bucket\<close> are how the promise of the request settles: \<open>None\<close> when
  it resolves, \<open>Some err\<close> when it rejects with \<open>err\<close>.  The answer to a request
  depends on its arguments only; the order in which the answers arrive is left open
  (see the schedule below).  \<open>statSync_isFile\<close> is \<open>fs.statSync(path).isFile()\<close>, and
  \<open>writeFileSync\<close> returns the error it throws, if any.  \<open>toISOString env\<close> is the
  reading of the clock taken by \<open>new Date().toISOString()\<close>.  Strings are lists of
  8-bit characters.
\<close>

subsection \<open>What the script does to the outside: console lines and calls\<close>

text \<open>
  One constructor for each template the script prints (chalk only colours the text).
  \<open>Text\<close> carries a line without parameters.
\<close>

datatype msg =
    Text string
  | LocalDirectory string
  | S3Bucket string
  | S3DestinationPath string
  | FoundFiles nat
  | SkippedDuplicate string
  | UploadedFile string
  | ErrorUploading string js_value
  | ErrorChecking string js_error
  | Progress nat nat
  | TotalFilesFound nat
  | SuccessfullyUploaded nat
  | DuplicatesFound nat
  | FailedToUpload nat
  | DuplicateListSaved string
  | FailedListSaved string
  | UnexpectedError js_value
  | LocalDirectoryNotFound string
  | CheckingAccess string
  | TestSuccessful
  | HavePermission string
  | TestFailed
  | BucketDoesNotExist string
  | UnexpectedTestError string
  | FullErrorDetails js_error
  | Rejection string

datatype event =
    Console_log msg
  | Console_error msg
  | S3_headBucket string
  | S3_headObject string string
  | S3_upload string string string
  | Fs_readFileSync string
  | Fs_writeFileSync string string

text \<open>
  Every event is recorded with the code that performed it: the body of
  \<open>uploadDirectory\<close> (and the script's top level), or the call of \<open>processFile\<close> for
  one file name.
\<close>

datatype actor = Main_body | Task string

type_synonym trace = "(actor \<times> event) list"

subsection \<open>Node's POSIX \<open>path.join\<close>\<close>

text \<open>
  The host's \<open>path.join\<close> is a parameter.  \<open>posix_join\<close> is the implementation Node
  uses on POSIX hosts, for two arguments: the non-empty arguments are joined with a
  slash and the result is normalised (empty and \<open>.\<close> segments dropped, \<open>..\<close> resolved
  against the segment before it, a trailing slash kept).
\<close>

fun split_slash :: "string \<Rightarrow> string list" where
  "split_slash [] = [[]]"
| "split_slash (c # cs) =
     (if c = CHR ''/'' then [] # split_slash cs
      else (case split_slash cs of [] \<Rightarrow> [[c]] | s # ss \<Rightarrow> (c # s) # ss))"

fun join_slash :: "string list \<Rightarrow> string" where
  "join_slash [] = []"
| "join_slash [s] = s"
| "join_slash (s # t # ss) = s @ ''/'' @ join_slash (t # ss)"

fun normalizeString :: "bool \<Rightarrow> string list \<Rightarrow> string list \<Rightarrow> string list" where
  "normalizeString allowAboveRoot res [] = res"
| "normalizeString allowAboveRoot res (s # ss) =
     (if s = [] \<or> s = ''.'' then normalizeString allowAboveRoot res ss
      else if s = ''..'' then
        (if res \<noteq> [] \<and> last res \<noteq> ''..'' then normalizeString allowAboveRoot (butlast res) ss
         else if allowAboveRoot then normalizeString allowAboveRoot (res @ [''..'']) ss
         else normalizeString allowAboveRoot res ss)
      else normalizeString allowAboveRoot (res @ [s]) ss)"

definition posix_normalize :: "string \<Rightarrow> string" where
  "posix_normalize p =
     (if p = [] then ''.''
      else
        (let isAbsolute = (hd p = CHR ''/'');
             trailingSeparator = (last p = CHR ''/'');
             r = join_slash (normalizeString (\<not> isAbsolute) [] (split_slash p))
         in if r = [] then (if isAbsolute then ''/'' else if trailingSeparator then ''./'' else ''.'')
            else (if isAbsolute then ''/'' else []) @ r @ (if trailingSeparator then ''/'' else [])))"

definition posix_join :: "string \<Rightarrow> string \<Rightarrow> string" where
  "posix_join a b =
     (case filter (\<lambda>s. s \<noteq> []) [a, b] of
        [] \<Rightarrow> ''.''
      | parts \<Rightarrow> posix_normalize (join_slash parts))"

subsection \<open>\<open>JSON.stringify(value, null, 2)\<close> for the two report shapes\<close>

text \<open>
  The reports are an array of strings and an array of objects with the string property
  \<open>file\<close> and the property \<open>error\<close>, whose value is a string, \<open>null\<close> or
  \<open>undefined\<close>; a property that is \<open>undefined\<close> is left out of the object.  A string
  is quoted as ECMAScript's QuoteJSONString does for the characters a \<open>char\<close> can
  hold: the double quote, the backslash and the control characters are escaped, every
  other character is kept.
\<close>

definition hex_digit :: "nat \<Rightarrow> char" where
  "hex_digit n = ''0123456789abcdef'' ! (n mod 16)"

definition json_escape :: "char \<Rightarrow> string" where
  "json_escape c =
     (if c = CHR 0x22 then [CHR 0x5C, CHR 0x22]
      else if c = CHR 0x5C then [CHR 0x5C, CHR 0x5C]
      else if c = CHR 0x08 then [CHR 0x5C, CHR ''b'']
      else if c = CHR 0x09 then [CHR 0x5C, CHR ''t'']
      else if c = CHR 0x0A then [CHR 0x5C, CHR ''n'']
      else if c = CHR 0x0C then [CHR 0x5C, CHR ''f'']
      else if c = CHR 0x0D then [CHR 0x5C, CHR ''r'']
      else if (of_char c :: nat) < 32 then
        [CHR 0x5C, CHR ''u'', CHR ''0'', CHR ''0'',
         hex_digit (of_char c div 16), hex_digit (of_char c)]
      else [c])"

definition json_quote :: "string \<Rightarrow> string" where
  "json_quote s = [CHR 0x22] @ concat (map json_escape s) @ [CHR 0x22]"

fun join_lines :: "string list \<Rightarrow> string" where
  "join_lines [] = []"
| "join_lines [s] = s"
| "join_lines (s # t # ss) = s @ [CHR '','', CHR 0x0A] @ join_lines (t # ss)"

definition stringify_names :: "string list \<Rightarrow> string" where
  "stringify_names xs =
     (if xs = [] then ''[]''
      else ''['' @ [CHR 0x0A] @ join_lines (map (\<lambda>s. ''  '' @ json_quote s) xs) @ [CHR 0x0A] @ '']'')"

text \<open>The properties of one record that are written, each as \<open>"key": value\<close>.\<close>

definition record_properties :: "string \<times> js_value \<Rightarrow> string list" where
  "record_properties r =
     (json_quote ''file'' @ '': '' @ json_quote (fst r)) #
     (case snd r of
        Str m \<Rightarrow> [json_quote ''error'' @ '': '' @ json_quote m]
      | Null \<Rightarrow> [json_quote ''error'' @ '': null'']
      | Undefined \<Rightarrow> [])"

definition stringify_record :: "string \<times> js_value \<Rightarrow> string" where
  "stringify_record r =
     ''  {'' @ [CHR 0x0A] @
     join_lines (map (\<lambda>prop. ''    '' @ prop) (record_properties r)) @ [CHR 0x0A] @
     ''  }''"

definition stringify_records :: "(string \<times> js_value) list \<Rightarrow> string" where
  "stringify_records rs =
     (if rs = [] then ''[]''
      else ''['' @ [CHR 0x0A] @ join_lines (map stringify_record rs) @ [CHR 0x0A] @ '']'')"

section \<open>uploadDirectory\<close>

definition CONCURRENT_UPLOADS :: nat where
  "CONCURRENT_UPLOADS = 50"

text \<open>The three parameters of \<open>uploadDirectory\<close>.\<close>

record params =
  localPath :: string
  bucketName :: string
  s3Path :: string

text \<open>
  The variables of \<open>uploadDirectory\<close> that the calls of \<open>processFile\<close> share and
  mutate, and the events so far.
\<close>

record run_state =
  uploadedCount :: nat
  duplicatedFiles :: "string list"
  notUploadedFiles :: "(string \<times> js_value) list"
  processedCount :: nat
  events :: trace

definition emit :: "actor \<Rightarrow> event \<Rightarrow> run_state \<Rightarrow> run_state" where
  "emit who e st = st\<lparr>events := events st @ [(who, e)]\<rparr>"

subsection \<open>getAWSConfig\<close>

definition falsy :: "string option \<Rightarrow> bool" where
  "falsy v = (case v of None \<Rightarrow> True | Some s \<Rightarrow> s = [])"

definition missing_credentials :: trace where
  "missing_credentials =
     [(Main_body, Console_error (Text ''Error: Missing AWS credentials in .env file.'')),
      (Main_body, Console_error (Text
        ''Please create a .env file with AWS_REGION, AWS_ACCESS_KEY_ID, and AWS_SECRET_ACCESS_KEY.''))]"

text \<open>\<open>None\<close> is \<open>process.exit(1)\<close> after the two lines of \<open>missing_credentials\<close>.\<close>

definition getAWSConfig :: "env \<Rightarrow> (string \<times> string \<times> string) option" where
  "getAWSConfig env =
     (if falsy (AWS_REGION env) \<or> falsy (AWS_ACCESS_KEY_ID env) \<or> falsy (AWS_SECRET_ACCESS_KEY env)
      then None
      else Some (the (AWS_REGION env), the (AWS_ACCESS_KEY_ID env), the (AWS_SECRET_ACCESS_KEY env)))"

subsection \<open>processFile\<close>

text \<open>
  A call of \<open>processFile\<close> runs until its first \<open>await\<close> when it is made, and goes on
  when the awaited promise settles.  Between the two it is pending, in one of two
  phases: waiting for \<open>headObject\<close>, or waiting for \<open>upload\<close> of the content it read.
\<close>

datatype phase = AwaitHead | AwaitUpload string

definition localFilePath :: "env \<Rightarrow> params \<Rightarrow> string \<Rightarrow> string" where
  "localFilePath env p fileName = path_join env (localPath p) fileName"

definition s3Key :: "env \<Rightarrow> params \<Rightarrow> string \<Rightarrow> string" where
  "s3Key env p fileName =
     map (\<lambda>c. if c = CHR 0x5C then CHR ''/'' else c) (path_join env (s3Path p) fileName)"

text \<open>Up to the first \<open>await\<close>: the two paths are computed and the request is sent.\<close>

definition processFile_start :: "env \<Rightarrow> params \<Rightarrow> string \<Rightarrow> run_state \<Rightarrow> run_state" where
  "processFile_start env p fileName st =
     emit (Task fileName) (S3_headObject (bucketName p) (s3Key env p fileName)) st"

text \<open>The last two statements of \<open>processFile\<close>.\<close>

definition processed :: "nat \<Rightarrow> string \<Rightarrow> run_state \<Rightarrow> run_state" where
  "processed totalFiles fileName st =
     emit (Task fileName) (Console_log (Progress (Suc (processedCount st)) totalFiles))
       (st\<lparr>processedCount := Suc (processedCount st)\<rparr>)"

text \<open>\<open>err.code || err.message\<close>, as the template literal prints it.\<close>

definition code_or_message :: "js_error \<Rightarrow> string" where
  "code_or_message err =
     (case err_code err of
        None \<Rightarrow> js_to_string (err_message err)
      | Some c \<Rightarrow> if c = [] then js_to_string (err_message err) else c)"

text \<open>
  From the settling of the awaited promise to the next \<open>await\<close> (the result is the new
  phase) or to the end of the call (\<open>None\<close>).
\<close>

definition processFile_resume ::
  "env \<Rightarrow> params \<Rightarrow> nat \<Rightarrow> string \<Rightarrow> phase \<Rightarrow> run_state \<Rightarrow> phase option \<times> run_state" where
  "processFile_resume env p totalFiles fileName ph st =
     (case ph of
        AwaitHead \<Rightarrow>
          (case headObject env (bucketName p) (s3Key env p fileName) of
             None \<Rightarrow>
               (None,
                processed totalFiles fileName
                  ((emit (Task fileName) (Console_log (SkippedDuplicate fileName)) st)
                     \<lparr>duplicatedFiles := duplicatedFiles st @ [fileName]\<rparr>))
           | Some err \<Rightarrow>
               if err_code err = Some ''NotFound'' then
                 (case readFileSync env (localFilePath env p fileName) of
                    Inr fileContent \<Rightarrow>
                      (Some (AwaitUpload fileContent),
                       emit (Task fileName)
                         (S3_upload (bucketName p) (s3Key env p fileName) fileContent)
                         (emit (Task fileName) (Fs_readFileSync (localFilePath env p fileName)) st))
                  | Inl uploadError \<Rightarrow>
                      (None,
                       processed totalFiles fileName
                         ((emit (Task fileName)
                             (Console_error (ErrorUploading fileName (err_message uploadError)))
                             (emit (Task fileName) (Fs_readFileSync (localFilePath env p fileName)) st))
                            \<lparr>notUploadedFiles :=
                               notUploadedFiles st @ [(fileName, err_message uploadError)]\<rparr>)))
               else
                 (None,
                  processed totalFiles fileName
                    ((emit (Task fileName) (Console_error (ErrorChecking fileName err)) st)
                       \<lparr>notUploadedFiles :=
                          notUploadedFiles st @
                            [(fileName, Str (''Failed to check S3 status: '' @ code_or_message err))]\<rparr>)))
      | AwaitUpload fileContent \<Rightarrow>
          (case upload env (bucketName p) (s3Key env p fileName) fileContent of
             None \<Rightarrow>
               (None,
                processed totalFiles fileName
                  ((emit (Task fileName) (Console_log (UploadedFile fileName)) st)
                     \<lparr>uploadedCount := Suc (uploadedCount st)\<rparr>))
           | Some uploadError \<Rightarrow>
               (None,
                processed totalFiles fileName
                  ((emit (Task fileName)
                      (Console_error (ErrorUploading fileName (err_message uploadError))) st)
                     \<lparr>notUploadedFiles :=
                        notUploadedFiles st @ [(fileName, err_message uploadError)]\<rparr>))))"

subsection \<open>\<open>await Promise.all(queue)\<close>\<close>

text \<open>
  While \<open>uploadDirectory\<close> waits for the queue, the pending calls go on one at a time,
  in whatever order their promises settle.  The order is the schedule: a list of
  numbers, each choosing one of the calls pending at that moment (when the list is
  used up, the first pending call is chosen).  The theorems hold for every schedule.
\<close>

type_synonym pending = "string \<times> phase"

definition pick :: "nat list \<Rightarrow> nat \<Rightarrow> nat \<times> nat list" where
  "pick sched n = (case sched of [] \<Rightarrow> (0, []) | c # cs \<Rightarrow> (c mod n, cs))"

definition settle :: "pending list \<Rightarrow> nat \<Rightarrow> phase option \<Rightarrow> pending list" where
  "settle q i nxt =
     take i q @ (case nxt of None \<Rightarrow> [] | Some ph \<Rightarrow> [(fst (q ! i), ph)]) @ drop (Suc i) q"

definition weight :: "pending \<Rightarrow> nat" where
  "weight t = (case snd t of AwaitHead \<Rightarrow> 2 | AwaitUpload b \<Rightarrow> 1)"

lemma pick_less: "0 < n \<Longrightarrow> fst (pick sched n) < n"
  by (simp add: pick_def split: list.split)

lemma resume_phase:
  "processFile_resume env p totalFiles fileName ph st = (nxt, st') \<Longrightarrow>
   (case ph of AwaitHead \<Rightarrow> nxt = None \<or> (\<exists>b. nxt = Some (AwaitUpload b))
             | AwaitUpload b \<Rightarrow> nxt = None)"
  by (auto simp: processFile_resume_def split: phase.splits option.splits sum.splits if_splits)

lemma weight_settle:
  assumes "i < length q"
    and "processFile_resume env p totalFiles (fst (q ! i)) (snd (q ! i)) st = (nxt, st')"
  shows "sum_list (map weight (settle q i nxt)) < sum_list (map weight q)"
proof -
  have q: "q = take i q @ (q ! i) # drop (Suc i) q"
    using assms(1) by (simp add: id_take_nth_drop)
  have w: "(case nxt of None \<Rightarrow> 0 | Some ph \<Rightarrow> weight (fst (q ! i), ph)) < weight (q ! i)"
    using resume_phase [OF assms(2)]
    by (cases "q ! i") (auto simp: weight_def split: phase.splits option.splits)
  have "sum_list (map weight (settle q i nxt)) =
        sum_list (map weight (take i q)) +
        (case nxt of None \<Rightarrow> 0 | Some ph \<Rightarrow> weight (fst (q ! i), ph)) +
        sum_list (map weight (drop (Suc i) q))"
    by (simp add: settle_def split: option.split)
  moreover have "sum_list (map weight q) =
        sum_list (map weight (take i q)) + weight (q ! i) + sum_list (map weight (drop (Suc i) q))"
    by (subst q) simp
  ultimately show ?thesis using w by linarith
qed

function drain ::
  "env \<Rightarrow> params \<Rightarrow> nat \<Rightarrow> pending list \<Rightarrow> nat list \<Rightarrow> run_state \<Rightarrow> nat list \<times> run_state" where
  "drain env p totalFiles q sched st =
     (if q = [] then (sched, st)
      else
        (let i = fst (pick sched (length q));
             r = processFile_resume env p totalFiles (fst (q ! i)) (snd (q ! i)) st
         in drain env p totalFiles (settle q i (fst r)) (snd (pick sched (length q))) (snd r)))"
  by pat_completeness auto
termination
proof (relation "measure (\<lambda>(env, p, totalFiles, q, sched, st). sum_list (map weight q))")
  show "wf (measure (\<lambda>(env, p, totalFiles, q, sched, st). sum_list (map weight q)))"
    by simp
next
  fix env p totalFiles q sched st i r
  assume "q \<noteq> []" and i: "i = fst (pick sched (length q))"
    and r: "r = processFile_resume env p totalFiles (fst (q ! i)) (snd (q ! i)) st"
  then have "i < length q" by (simp add: pick_less)
  moreover have "processFile_resume env p totalFiles (fst (q ! i)) (snd (q ! i)) st = (fst r, snd r)"
    using r by simp
  ultimately have "sum_list (map weight (settle q i (fst r))) < sum_list (map weight q)"
    by (rule weight_settle)
  then show "((env, p, totalFiles, settle q i (fst r), snd (pick sched (length q)), snd r),
              (env, p, totalFiles, q, sched, st))
             \<in> measure (\<lambda>(env, p, totalFiles, q, sched, st). sum_list (map weight q))"
    by simp
qed

subsection \<open>The queue of uploadDirectory\<close>

text \<open>
  The \<open>for\<close> loop over \<open>filesToProcess\<close>: each file's call is made and pushed; when
  the queue has reached \<open>CONCURRENT_UPLOADS\<close> the loop waits for all of it and empties
  it.  After the loop the rest of the queue is awaited.  No pending call goes on while
  the loop itself runs, so all calls of the queue are still in their first phase when
  the loop starts to wait.
\<close>

fun upload_loop ::
  "env \<Rightarrow> params \<Rightarrow> nat \<Rightarrow> string list \<Rightarrow> pending list \<Rightarrow> nat list \<Rightarrow> run_state
   \<Rightarrow> nat list \<times> run_state" where
  "upload_loop env p totalFiles [] queue sched st = drain env p totalFiles queue sched st"
| "upload_loop env p totalFiles (file # rest) queue sched st =
     (let st1 = processFile_start env p file st;
          queue1 = queue @ [(file, AwaitHead)]
      in if length queue1 \<ge> CONCURRENT_UPLOADS then
           (let r = drain env p totalFiles queue1 sched st1
            in upload_loop env p totalFiles rest [] (fst r) (snd r))
         else upload_loop env p totalFiles rest queue1 sched st1)"

subsection \<open>The scan of the directory\<close>

text \<open>\<open>allFiles.filter(...)\<close>: the first \<open>statSync\<close> that throws ends the scan.\<close>

fun filter_isFile :: "env \<Rightarrow> string \<Rightarrow> string list \<Rightarrow> js_error + string list" where
  "filter_isFile env dir [] = Inr []"
| "filter_isFile env dir (file # rest) =
     (case statSync_isFile env (path_join env dir file) of
        Inl error \<Rightarrow> Inl error
      | Inr isFile \<Rightarrow>
          (case filter_isFile env dir rest of
             Inl error \<Rightarrow> Inl error
           | Inr files \<Rightarrow> Inr (if isFile then file # files else files)))"

definition filesToProcess :: "env \<Rightarrow> string \<Rightarrow> js_error + string list" where
  "filesToProcess env dir =
     (case readdirSync env dir of
        Inl error \<Rightarrow> Inl error
      | Inr allFiles \<Rightarrow> filter_isFile env dir allFiles)"

subsection \<open>Summary, reports and the catch block\<close>

definition timestamp :: "env \<Rightarrow> string" where
  "timestamp env =
     map (\<lambda>c. if c = CHR '':'' \<or> c = CHR ''.'' then CHR ''-'' else c) (toISOString env)"

definition duplicatedLogFile :: "env \<Rightarrow> string" where
  "duplicatedLogFile env = ''duplicated_'' @ timestamp env @ ''.json''"

definition notUploadedLogFile :: "env \<Rightarrow> string" where
  "notUploadedLogFile env = ''not_uploaded_files_'' @ timestamp env @ ''.json''"

definition print_summary :: "nat \<Rightarrow> run_state \<Rightarrow> run_state" where
  "print_summary totalFiles st =
     emit Main_body (Console_log (FailedToUpload (length (notUploadedFiles st))))
       (emit Main_body (Console_log (DuplicatesFound (length (duplicatedFiles st))))
          (emit Main_body (Console_log (SuccessfullyUploaded (uploadedCount st)))
             (emit Main_body (Console_log (TotalFilesFound totalFiles))
                (emit Main_body (Console_log (Text (CHR 0x0A # ''--- Upload Process Finished ---''))) st))))"

text \<open>
  One \<open>fs.writeFileSync\<close> and the line after it.  \<open>Inl\<close> is the error thrown, with
  the state at the throw.
\<close>

definition write_report ::
  "env \<Rightarrow> string \<Rightarrow> string \<Rightarrow> msg \<Rightarrow> run_state \<Rightarrow> js_error \<times> run_state + run_state" where
  "write_report env name content saved st =
     (let st1 = emit Main_body (Fs_writeFileSync name content) st
      in case writeFileSync env name content of
           Some error \<Rightarrow> Inl (error, st1)
         | None \<Rightarrow> Inr (emit Main_body (Console_log saved) st1))"

definition write_reports :: "env \<Rightarrow> run_state \<Rightarrow> js_error \<times> run_state + run_state" where
  "write_reports env st =
     (case (if length (duplicatedFiles st) > 0
            then write_report env (duplicatedLogFile env) (stringify_names (duplicatedFiles st))
                   (DuplicateListSaved (duplicatedLogFile env)) st
            else Inr st) of
        Inl thrown \<Rightarrow> Inl thrown
      | Inr st1 \<Rightarrow>
          if length (notUploadedFiles st1) > 0
          then write_report env (notUploadedLogFile env) (stringify_records (notUploadedFiles st1))
                 (FailedListSaved (notUploadedLogFile env)) st1
          else Inr st1)"

definition catch_block :: "params \<Rightarrow> js_error \<Rightarrow> run_state \<Rightarrow> run_state" where
  "catch_block p error st =
     (let st1 = emit Main_body (Console_error (UnexpectedError (err_message error))) st
      in if err_code error = Some ''ENOENT''
         then emit Main_body (Console_error (LocalDirectoryNotFound (localPath p))) st1
         else st1)"

subsection \<open>uploadDirectory\<close>

text \<open>
  How an async function of the script ends: the process is ended by \<open>process.exit\<close>,
  the promise resolves, or the promise rejects with an error (printed as a string).
\<close>

datatype outcome = ProcessExit nat run_state | Returned run_state | Rejected string run_state

definition initial_state :: run_state where
  "initial_state =
     \<lparr>uploadedCount = 0, duplicatedFiles = [], notUploadedFiles = [], processedCount = 0,
      events = []\<rparr>"

definition uploadDirectory :: "env \<Rightarrow> params \<Rightarrow> nat list \<Rightarrow> outcome" where
  "uploadDirectory env p sched =
     (let st0 = emit Main_body (Console_log (Text ''Starting upload process...'')) initial_state
      in case getAWSConfig env of
           None \<Rightarrow> ProcessExit 1 (st0\<lparr>events := events st0 @ missing_credentials\<rparr>)
         | Some config \<Rightarrow>
             (let st1 = emit Main_body (Console_log (S3DestinationPath (s3Path p)))
                          (emit Main_body (Console_log (S3Bucket (bucketName p)))
                             (emit Main_body (Console_log (LocalDirectory (localPath p))) st0))
              in case filesToProcess env (localPath p) of
                   Inl error \<Rightarrow> Returned (catch_block p error st1)
                 | Inr files \<Rightarrow>
                     (let totalFiles = length files;
                          st2 = emit Main_body (Console_log (FoundFiles totalFiles)) st1;
                          st3 = snd (upload_loop env p totalFiles files [] sched st2);
                          st4 = print_summary totalFiles st3
                      in case write_reports env st4 of
                           Inl (error, st5) \<Rightarrow> Returned (catch_block p error st5)
                         | Inr st5 \<Rightarrow> Returned st5)))"

section \<open>testAWSConfiguration and the command line\<close>

text \<open>
  In the catch block of \<open>testAWSConfiguration\<close> the constant \<open>config\<close> of the try block
  is not in scope, so the case \<open>NetworkingError\<close> throws a ReferenceError and the
  promise rejects.
\<close>

definition testAWSConfiguration :: "env \<Rightarrow> string \<Rightarrow> outcome" where
  "testAWSConfiguration env bucket =
     (let st0 = emit Main_body (Console_log (Text ''Running AWS Configuration Test...'')) initial_state
      in case getAWSConfig env of
           None \<Rightarrow> ProcessExit 1 (st0\<lparr>events := events st0 @ missing_credentials\<rparr>)
         | Some config \<Rightarrow>
             (let st1 = emit Main_body (S3_headBucket bucket)
                          (emit Main_body (Console_log (CheckingAccess bucket)) st0)
              in case headBucket env bucket of
                   None \<Rightarrow>
                     Returned (st1\<lparr>events := events st1 @ map (\<lambda>m. (Main_body, Console_log m))
                       [TestSuccessful,
                        Text ''   - Credentials are valid.'',
                        Text ''   - Connection to the region was successful.'',
                        HavePermission bucket]\<rparr>)
                 | Some error \<Rightarrow>
                     (let st2 = emit Main_body (Console_error (Text ''Please check the details below:''))
                                  (emit Main_body (Console_error TestFailed) st1);
                          details = (\<lambda>ms. Returned (st2\<lparr>events := events st2 @
                                      map (\<lambda>m. (Main_body, Console_error m)) (ms @ [FullErrorDetails error])\<rparr>))
                      in if err_code error = Some ''NoSuchBucket'' then
                           details [BucketDoesNotExist bucket]
                         else if err_code error = Some ''Forbidden'' then
                           details
                             [Text ''   - Error: Access Denied. The provided credentials do not have permission to access this bucket.'',
                              Text ''     Check the IAM user permissions in your AWS console.'']
                         else if err_code error = Some ''InvalidAccessKeyId'' then
                           details
                             [Text ''   - Error: The AWS Access Key ID you provided does not exist in our records.'']
                         else if err_code error = Some ''SignatureDoesNotMatch'' then
                           details
                             [Text ''   - Error: The Secret Access Key is incorrect.'',
                              Text ''     The request signature we calculated does not match the signature you provided.'']
                         else if err_code error = Some ''NetworkingError'' then
                           Rejected ''ReferenceError: config is not defined'' st2
                         else details [UnexpectedTestError (js_to_string (err_message error))])))"

definition printUsage :: trace where
  "printUsage = map (\<lambda>m. (Main_body, Console_error (Text m)))
     [''Invalid command or arguments.'',
      CHR 0x0A # ''Usage:'',
      ''  To test AWS configuration:'',
      ''    node uploader.js test <bucket_name>'',
      CHR 0x0A # ''  To upload files:'',
      ''    node uploader.js upload <local_path> <bucket_name> <s3_folder>'']"

text \<open>
  The end of the process: the exit code and everything it did.  A promise that
  resolves leaves the code at 0; a rejection is caught by the \<open>.catch\<close> of the top
  level, which prints it and leaves the code at 0 too.
\<close>

definition process_end :: "outcome \<Rightarrow> nat \<times> trace" where
  "process_end r =
     (case r of
        ProcessExit n st \<Rightarrow> (n, events st)
      | Returned st \<Rightarrow> (0, events st)
      | Rejected err st \<Rightarrow> (0, events (emit Main_body (Console_error (Rejection err)) st)))"

text \<open>The script's top level; \<open>args\<close> is \<open>process.argv.slice(2)\<close>.\<close>

definition main :: "env \<Rightarrow> string list \<Rightarrow> nat list \<Rightarrow> nat \<times> trace" where
  "main env args sched =
     (case args of
        [] \<Rightarrow> (1, printUsage)
      | command # _ \<Rightarrow>
          if command = ''test'' then
            (if length args \<noteq> 2 then (1, printUsage)
             else process_end (testAWSConfiguration env (args ! 1)))
          else if command = ''upload'' then
            (if length args \<noteq> 4 then (1, printUsage)
             else process_end
                    (uploadDirectory env
                       \<lparr>localPath = args ! 1, bucketName = args ! 2, s3Path = args ! 3\<rparr> sched))
          else (1, printUsage))"

section \<open>A concrete host\<close>

text \<open>
  A POSIX host whose directory \<open>/x/y\<close> holds four files and one subdirectory.  In the
  bucket \<open>b.txt\<close> exists already, the check of \<open>c.txt\<close> is refused, and the upload of
  \<open>d.txt\<close> is rejected.  The answers to \<open>headObject\<close> have no body, so their
  errors have the message \<open>null\<close>.
\<close>

definition demo_env :: env where
  "demo_env =
     \<lparr>AWS_REGION = Some ''eu-west-1'',
      AWS_ACCESS_KEY_ID = Some ''AKIDEXAMPLE'',
      AWS_SECRET_ACCESS_KEY = Some ''secret'',
      readdirSync =
        (\<lambda>d. if d = ''/x/y'' then Inr [''a.txt'', ''b.txt'', ''sub'', ''c.txt'', ''d.txt'']
             else if d = ''/x/y/a.txt''
             then Inl \<lparr>err_code = Some ''ENOTDIR'',
                      err_message = Str (''ENOTDIR: not a directory, scandir '' @ [CHR 0x27] @ d @ [CHR 0x27])\<rparr>
             else if d = ''/x/empty'' then Inr []
             else if d = ''/x/dirs'' then Inr [''sub1'', ''sub2'']
             else Inl \<lparr>err_code = Some ''ENOENT'',
                      err_message =
                        Str (''ENOENT: no such file or directory, scandir '' @ [CHR 0x27] @ d @ [CHR 0x27])\<rparr>),
      statSync_isFile = (\<lambda>f. Inr (f \<notin> {''/x/y/sub'', ''/x/dirs/sub1'', ''/x/dirs/sub2''})),
      readFileSync = (\<lambda>f. Inr ''data''),
      writeFileSync = (\<lambda>name content. None),
      headObject =
        (\<lambda>b k. if k = ''photos/b.txt'' then None
               else if k = ''photos/c.txt''
               then Some \<lparr>err_code = Some ''Forbidden'', err_message = Null\<rparr>
               else Some \<lparr>err_code = Some ''NotFound'', err_message = Null\<rparr>),
      upload =
        (\<lambda>b k body. if k = ''photos/d.txt''
                    then Some \<lparr>err_code = Some ''AccessDenied'', err_message = Str ''AccessDenied''\<rparr>
                    else None),
      headBucket = (\<lambda>b. None),
      path_join = posix_join,
      toISOString = ''2026-11-03T10:15:30.123Z''\<rparr>"

definition demo_params :: params where
  "demo_params = \<lparr>localPath = ''/x/y'', bucketName = ''my-bucket'', s3Path = ''photos''\<rparr>"

text \<open>
  The same host with a directory \<open>/x/z\<close> of three files: one whose name holds a
  double quote and that exists in the bucket, one whose check is refused, and one whose
  upload is rejected with an error without message.
\<close>

definition report_env :: env where
  "report_env =
     demo_env
       \<lparr>readdirSync := (\<lambda>d. Inr [''b'' @ [CHR 0x22] @ ''1.txt'', ''c.txt'', ''d.txt'']),
        statSync_isFile := (\<lambda>f. Inr True),
        headObject :=
          (\<lambda>b k. if k = ''photos/b'' @ [CHR 0x22] @ ''1.txt'' then None
                 else if k = ''photos/c.txt''
                 then Some \<lparr>err_code = Some ''Forbidden'', err_message = Null\<rparr>
                 else Some \<lparr>err_code = Some ''NotFound'', err_message = Null\<rparr>),
        upload := (\<lambda>b k body. Some \<lparr>err_code = None, err_message = Null\<rparr>)\<rparr>"

definition report_params :: params where
  "report_params = \<lparr>localPath = ''/x/z'', bucketName = ''my-bucket'', s3Path = ''photos''\<rparr>"

text \<open>The first host again, but the duplicates report cannot be written.\<close>

definition locked_env :: env where
  "locked_env =
     demo_env
       \<lparr>writeFileSync :=
          (\<lambda>name content.
             if name = ''duplicated_2026-11-03T10-15-30-123Z.json''
             then Some \<lparr>err_code = Some ''EACCES'',
                        err_message =
                          Str (''EACCES: permission denied, open '' @ [CHR 0x27] @ name @ [CHR 0x27])\<rparr>
             else None)\<rparr>"

section \<open>Notions used to state the properties\<close>

subsection \<open>What the environment decides for one file\<close>

text \<open>
  The three outcomes of the specification's data model.  \<open>outcome_of\<close> reads the
  outcome of a file off the answers of the environment, following the branches of
  \<open>processFile\<close> in one go: it is what a call running alone would record.  The
  theorems below show that every schedule records the same.
\<close>

datatype UploadOutcome = Uploaded | Duplicate | Failed js_value

definition outcome_of :: "env \<Rightarrow> params \<Rightarrow> string \<Rightarrow> UploadOutcome" where
  "outcome_of env p fileName =
     (case headObject env (bucketName p) (s3Key env p fileName) of
        None \<Rightarrow> Duplicate
      | Some err \<Rightarrow>
          if err_code err = Some ''NotFound'' then
            (case readFileSync env (localFilePath env p fileName) of
               Inl readError \<Rightarrow> Failed (err_message readError)
             | Inr fileContent \<Rightarrow>
                 (case upload env (bucketName p) (s3Key env p fileName) fileContent of
                    None \<Rightarrow> Uploaded
                  | Some uploadError \<Rightarrow> Failed (err_message uploadError)))
          else Failed (Str (''Failed to check S3 status: '' @ code_or_message err)))"

definition is_failed :: "UploadOutcome \<Rightarrow> bool" where
  "is_failed r = (case r of Failed m \<Rightarrow> True | _ \<Rightarrow> False)"

definition head_not_found :: "env \<Rightarrow> params \<Rightarrow> string \<Rightarrow> bool" where
  "head_not_found env p f =
     (case headObject env (bucketName p) (s3Key env p f) of
        None \<Rightarrow> False
      | Some err \<Rightarrow> err_code err = Some ''NotFound'')"

subsection \<open>Reading a run\<close>

text \<open>
  The state an async function ended with; the counts and totals of the progress lines
  of a trace, in order; the calls of \<open>fs.writeFileSync\<close> of a trace (file name and
  content), in order, and those among them that do not throw; the request of a file's
  call.
\<close>

definition final_state :: "outcome \<Rightarrow> run_state" where
  "final_state r = (case r of ProcessExit n st \<Rightarrow> st | Returned st \<Rightarrow> st | Rejected err st \<Rightarrow> st)"

definition progress_counts :: "trace \<Rightarrow> (nat \<times> nat) list" where
  "progress_counts tr =
     concat (map (\<lambda>x. case snd x of Console_log (Progress k t) \<Rightarrow> [(k, t)] | _ \<Rightarrow> []) tr)"

definition write_calls :: "trace \<Rightarrow> (string \<times> string) list" where
  "write_calls tr =
     concat (map (\<lambda>x. case snd x of Fs_writeFileSync name content \<Rightarrow> [(name, content)] | _ \<Rightarrow> []) tr)"

definition files_written :: "env \<Rightarrow> trace \<Rightarrow> (string \<times> string) list" where
  "files_written env tr = filter (\<lambda>w. writeFileSync env (fst w) (snd w) = None) (write_calls tr)"

definition requested :: "env \<Rightarrow> params \<Rightarrow> string \<Rightarrow> trace \<Rightarrow> bool" where
  "requested env p f tr = ((Task f, S3_headObject (bucketName p) (s3Key env p f)) \<in> set tr)"

text \<open>
  A call is in flight from its request to its progress line.  \<open>in_flight\<close> of a trace
  is the number of calls in flight at its end, so \<open>in_flight (take k tr)\<close> is the
  number after the first \<open>k\<close> events.
\<close>

definition is_request :: "actor \<times> event \<Rightarrow> bool" where
  "is_request x = (case snd x of S3_headObject b k \<Rightarrow> True | _ \<Rightarrow> False)"

definition is_progress :: "actor \<times> event \<Rightarrow> bool" where
  "is_progress x = (case snd x of Console_log (Progress k t) \<Rightarrow> True | _ \<Rightarrow> False)"

definition delta :: "actor \<times> event \<Rightarrow> int" where
  "delta x =
     (case snd x of
        S3_headObject b k \<Rightarrow> 1
      | Console_log (Progress k t) \<Rightarrow> - 1
      | _ \<Rightarrow> 0)"

definition in_flight :: "trace \<Rightarrow> int" where
  "in_flight tr = sum_list (map delta tr)"

text \<open>The five lines of the summary.\<close>

definition summary_lines :: "nat \<Rightarrow> run_state \<Rightarrow> trace" where
  "summary_lines totalFiles st =
     map (\<lambda>m. (Main_body, Console_log m))
       [Text (CHR 0x0A # ''--- Upload Process Finished ---''),
        TotalFilesFound totalFiles,
        SuccessfullyUploaded (uploadedCount st),
        DuplicatesFound (length (duplicatedFiles st)),
        FailedToUpload (length (notUploadedFiles st))]"

subsection \<open>Reading a report back\<close>

text \<open>
  The reader of a JSON string, as the JSON grammar has it: between two double quotes,
  any character but the double quote, the backslash and the control characters stands
  for itself, and a backslash starts an escape: it is followed by a double quote, a
  backslash, a slash, one of the letters b, f, n, r, t, or the letter u and four
  hexadecimal digits (here the first two are zero, since a character has eight bits).
\<close>

definition hex_value :: "char \<Rightarrow> nat option" where
  "hex_value c =
     (let n = (of_char c :: nat)
      in if 48 \<le> n \<and> n \<le> 57 then Some (n - 48)
         else if 97 \<le> n \<and> n \<le> 102 then Some (n - 87)
         else if 65 \<le> n \<and> n \<le> 70 then Some (n - 55)
         else None)"

definition escape_letter :: "char \<Rightarrow> char option" where
  "escape_letter d =
     (if d = CHR 0x22 then Some (CHR 0x22)
      else if d = CHR 0x5C then Some (CHR 0x5C)
      else if d = CHR ''/'' then Some (CHR ''/'')
      else if d = CHR ''b'' then Some (CHR 0x08)
      else if d = CHR ''f'' then Some (CHR 0x0C)
      else if d = CHR ''n'' then Some (CHR 0x0A)
      else if d = CHR ''r'' then Some (CHR 0x0D)
      else if d = CHR ''t'' then Some (CHR 0x09)
      else None)"

fun unescape :: "string \<Rightarrow> string option" where
  "unescape [] = Some []"
| "unescape (c # cs) =
     (if c = CHR 0x5C then
        (case cs of
           [] \<Rightarrow> None
         | d # ds \<Rightarrow>
             if d = CHR ''u'' then
               (case ds of
                  a # b # x # y # rest \<Rightarrow>
                    (case (hex_value a, hex_value b, hex_value x, hex_value y) of
                       (Some ha, Some hb, Some hx, Some hy) \<Rightarrow>
                         if ha = 0 \<and> hb = 0
                         then map_option ((#) (char_of (16 * hx + hy))) (unescape rest)
                         else None
                     | _ \<Rightarrow> None)
                | _ \<Rightarrow> None)
             else
               (case escape_letter d of
                  None \<Rightarrow> None
                | Some e \<Rightarrow> map_option ((#) e) (unescape ds)))
      else if c = CHR 0x22 \<or> (of_char c :: nat) < 32 then None
      else map_option ((#) c) (unescape cs))"

definition json_unquote :: "string \<Rightarrow> string option" where
  "json_unquote s =
     (case s of
        [] \<Rightarrow> None
      | c # cs \<Rightarrow>
          if c = CHR 0x22 \<and> cs \<noteq> [] \<and> last cs = CHR 0x22 then unescape (butlast cs) else None)"

subsection \<open>The batches of the specification\<close>

text \<open>
  The specification's wording of the concurrency discipline, to be compared with the
  loop of the script: the list is cut into consecutive batches of at most \<open>n\<close> files;
  the run of a batch starts every call of the batch and then waits for all of them; the
  batches run one after the other.
\<close>

function chunks :: "nat \<Rightarrow> 'a list \<Rightarrow> 'a list list" where
  "chunks n xs = (if n = 0 \<or> xs = [] then [] else take n xs # chunks n (drop n xs))"
  by pat_completeness auto
termination
  by (relation "measure (\<lambda>(n, xs). length xs)") auto

definition start_all :: "env \<Rightarrow> params \<Rightarrow> string list \<Rightarrow> run_state \<Rightarrow> run_state" where
  "start_all env p batch st = foldl (\<lambda>s f. processFile_start env p f s) st batch"

definition run_batch ::
  "env \<Rightarrow> params \<Rightarrow> nat \<Rightarrow> string list \<Rightarrow> nat list \<Rightarrow> run_state \<Rightarrow> nat list \<times> run_state" where
  "run_batch env p T batch sched st =
     drain env p T (map (\<lambda>f. (f, AwaitHead)) batch) sched (start_all env p batch st)"

fun run_batches ::
  "env \<Rightarrow> params \<Rightarrow> nat \<Rightarrow> string list list \<Rightarrow> nat list \<Rightarrow> run_state \<Rightarrow> nat list \<times> run_state" where
  "run_batches env p T [] sched st = (sched, st)"
| "run_batches env p T (batch # later) sched st =
     (let r = run_batch env p T batch sched st
      in run_batches env p T later (fst r) (snd r))"

subsection \<open>The parts of a run of uploadDirectory\<close>

text \<open>
  The state after the four lines of the start; the state when the loop and its last
  \<open>await\<close> are over; and the end of the function after the summary: the reports
  and, when a write throws, the catch block.
\<close>

definition prelude :: "params \<Rightarrow> run_state" where
  "prelude p =
     emit Main_body (Console_log (S3DestinationPath (s3Path p)))
       (emit Main_body (Console_log (S3Bucket (bucketName p)))
          (emit Main_body (Console_log (LocalDirectory (localPath p)))
             (emit Main_body (Console_log (Text ''Starting upload process...'')) initial_state)))"

definition engine_result :: "env \<Rightarrow> params \<Rightarrow> string list \<Rightarrow> nat list \<Rightarrow> run_state" where
  "engine_result env p files sched =
     snd (upload_loop env p (length files) files [] sched
            (emit Main_body (Console_log (FoundFiles (length files))) (prelude p)))"

definition after_reports :: "env \<Rightarrow> params \<Rightarrow> run_state \<Rightarrow> run_state" where
  "after_reports env p st =
     (case write_reports env st of
        Inl (error, st5) \<Rightarrow> catch_block p error st5
      | Inr st5 \<Rightarrow> st5)"

subsection \<open>Invariants of the loop\<close>

text \<open>
  Each invariant relates the files not yet started (\<open>rest\<close>), the pending calls
  (\<open>q\<close>) and the state.  A call that waits for its upload has had its check rejected
  with \<open>NotFound\<close> and has read the content it uploads.
\<close>

definition consistent :: "env \<Rightarrow> params \<Rightarrow> pending \<Rightarrow> bool" where
  "consistent env p t =
     (case snd t of
        AwaitHead \<Rightarrow> True
      | AwaitUpload b \<Rightarrow>
          (case headObject env (bucketName p) (s3Key env p (fst t)) of
             None \<Rightarrow> False
           | Some err \<Rightarrow> err_code err = Some ''NotFound'') \<and>
          readFileSync env (localFilePath env p (fst t)) = Inr b)"

text \<open>
  The buckets: what is recorded, together with what the files still to be finished
  will add, is what all files add.
\<close>

definition up_entry :: "env \<Rightarrow> params \<Rightarrow> string \<Rightarrow> nat" where
  "up_entry env p f = (if outcome_of env p f = Uploaded then 1 else 0)"

definition dup_entry :: "env \<Rightarrow> params \<Rightarrow> string \<Rightarrow> string list" where
  "dup_entry env p f = (if outcome_of env p f = Duplicate then [f] else [])"

definition fail_entry :: "env \<Rightarrow> params \<Rightarrow> string \<Rightarrow> (string \<times> js_value) list" where
  "fail_entry env p f = (case outcome_of env p f of Failed m \<Rightarrow> [(f, m)] | _ \<Rightarrow> [])"

definition todo :: "pending list \<Rightarrow> string list \<Rightarrow> string multiset" where
  "todo q rest = image_mset fst (mset q) + mset rest"

definition buckets_inv ::
  "env \<Rightarrow> params \<Rightarrow> string list \<Rightarrow> run_state \<Rightarrow> string list \<Rightarrow> pending list \<Rightarrow> run_state \<Rightarrow> bool" where
  "buckets_inv env p files st0 rest q s =
     ((\<forall>t \<in> set q. consistent env p t) \<and>
      uploadedCount s + (\<Sum>f\<in>#todo q rest. up_entry env p f) =
        uploadedCount st0 + (\<Sum>f\<in>#mset files. up_entry env p f) \<and>
      mset (duplicatedFiles s) + (\<Sum>f\<in>#todo q rest. mset (dup_entry env p f)) =
        mset (duplicatedFiles st0) + (\<Sum>f\<in>#mset files. mset (dup_entry env p f)) \<and>
      mset (notUploadedFiles s) + (\<Sum>f\<in>#todo q rest. mset (fail_entry env p f)) =
        mset (notUploadedFiles st0) + (\<Sum>f\<in>#mset files. mset (fail_entry env p f)) \<and>
      processedCount s + size (todo q rest) = processedCount st0 + length files)"

text \<open>
  The events: a call for \<open>f\<close> only does what the answers for \<open>f\<close> permit, and the
  body of \<open>uploadDirectory\<close> only prints.
\<close>

definition permitted :: "env \<Rightarrow> params \<Rightarrow> nat \<Rightarrow> string \<Rightarrow> event \<Rightarrow> bool" where
  "permitted env p T f e =
     (case e of
        S3_headObject b k \<Rightarrow> b = bucketName p \<and> k = s3Key env p f
      | Fs_readFileSync path \<Rightarrow> path = localFilePath env p f \<and> head_not_found env p f
      | S3_upload b k body \<Rightarrow>
          b = bucketName p \<and> k = s3Key env p f \<and> head_not_found env p f \<and>
          readFileSync env (localFilePath env p f) = Inr body
      | Console_log m \<Rightarrow>
          (case m of
             SkippedDuplicate g \<Rightarrow> g = f \<and> outcome_of env p f = Duplicate
           | UploadedFile g \<Rightarrow> g = f \<and> outcome_of env p f = Uploaded
           | Progress k t \<Rightarrow> t = T
           | _ \<Rightarrow> False)
      | Console_error m \<Rightarrow>
          (case m of
             ErrorUploading g text \<Rightarrow>
               g = f \<and> head_not_found env p f \<and> outcome_of env p f = Failed text
           | ErrorChecking g err \<Rightarrow>
               g = f \<and> headObject env (bucketName p) (s3Key env p f) = Some err \<and>
               err_code err \<noteq> Some ''NotFound''
           | _ \<Rightarrow> False)
      | _ \<Rightarrow> False)"

definition trace_ok :: "env \<Rightarrow> params \<Rightarrow> nat \<Rightarrow> string list \<Rightarrow> actor \<times> event \<Rightarrow> bool" where
  "trace_ok env p T files x =
     (case fst x of
        Main_body \<Rightarrow> (case snd x of Console_log m \<Rightarrow> True | _ \<Rightarrow> False)
      | Task f \<Rightarrow> f \<in> set files \<and> permitted env p T f (snd x))"

definition safety_inv ::
  "env \<Rightarrow> params \<Rightarrow> nat \<Rightarrow> string list \<Rightarrow> string list \<Rightarrow> pending list \<Rightarrow> run_state \<Rightarrow> bool" where
  "safety_inv env p T files rest q s =
     (set rest \<subseteq> set files \<and>
      (\<forall>t \<in> set q. fst t \<in> set files \<and> consistent env p t) \<and>
      (\<forall>x \<in> set (events s). trace_ok env p T files x))"

text \<open>
  Every file is still to be started, or has sent its request and is either waiting for
  the answer or past it: then, if the answer was \<open>NotFound\<close>, it has read the file and,
  if the read succeeded, sent the upload.
\<close>

definition past_head :: "env \<Rightarrow> params \<Rightarrow> string \<Rightarrow> trace \<Rightarrow> bool" where
  "past_head env p f tr =
     (head_not_found env p f \<longrightarrow>
        (Task f, Fs_readFileSync (localFilePath env p f)) \<in> set tr \<and>
        (case readFileSync env (localFilePath env p f) of
           Inl readError \<Rightarrow> True
         | Inr body \<Rightarrow> (Task f, S3_upload (bucketName p) (s3Key env p f) body) \<in> set tr))"

definition live_inv ::
  "env \<Rightarrow> params \<Rightarrow> string list \<Rightarrow> string list \<Rightarrow> pending list \<Rightarrow> run_state \<Rightarrow> bool" where
  "live_inv env p files rest q s =
     (\<forall>f \<in> set files. f \<in> set rest \<or>
        (requested env p f (events s) \<and>
         ((f, AwaitHead) \<in> set q \<or> past_head env p f (events s))))"

text \<open>
  The progress lines count up to \<open>processedCount\<close>; the calls in flight are the
  pending ones and never were more than \<open>CONCURRENT_UPLOADS\<close> (\<open>peak_ok K n tr\<close>:
  starting with \<open>n\<close> calls in flight, no more than \<open>K\<close> are in flight before,
  between and after the events of \<open>tr\<close>); while a batch is awaited no request is sent.
  An event is quiet when it belongs to the body of \<open>uploadDirectory\<close> and is neither
  a request nor a progress line.
\<close>

definition progress_inv :: "nat \<Rightarrow> string list \<Rightarrow> pending list \<Rightarrow> run_state \<Rightarrow> bool" where
  "progress_inv T rest q s =
     (progress_counts (events s) = map (\<lambda>k. (k, T)) [1..<Suc (processedCount s)])"

fun peak_ok :: "int \<Rightarrow> int \<Rightarrow> trace \<Rightarrow> bool" where
  "peak_ok K n [] = (n \<le> K)"
| "peak_ok K n (x # xs) = (n \<le> K \<and> peak_ok K (n + delta x) xs)"

definition flight_inv :: "string list \<Rightarrow> pending list \<Rightarrow> run_state \<Rightarrow> bool" where
  "flight_inv rest q s =
     (in_flight (events s) = int (length q) \<and> length q \<le> CONCURRENT_UPLOADS \<and>
      peak_ok (int CONCURRENT_UPLOADS) 0 (events s))"

definition batch_inv :: "trace \<Rightarrow> nat \<Rightarrow> pending list \<Rightarrow> run_state \<Rightarrow> bool" where
  "batch_inv tr0 n q s =
     (\<exists>tail. events s = tr0 @ tail \<and> filter is_request tail = [] \<and>
             length (filter is_progress tail) + length q = n)"

definition quiet :: "actor \<times> event \<Rightarrow> bool" where
  "quiet x = (fst x = Main_body \<and> delta x = 0)"

section \<open>Properties of the engine\<close>

subsection \<open>Induction over the loop\<close>

text \<open>
  A property of the pending calls and the state that every step of a pending call
  keeps holds when \<open>Promise.all\<close> is over; one that every start of a call keeps as
  well holds when the loop is over.  The start of a call can rely on a queue shorter
  than \<open>CONCURRENT_UPLOADS\<close>.
\<close>

declare drain.simps [simp del]

lemma drain_Nil: "drain env p T [] sched st = (sched, st)"
  by (simp add: drain.simps)

lemma drain_rule:
  assumes "I q st"
    and step: "\<And>q st i. I q st \<Longrightarrow> i < length q \<Longrightarrow>
      I (settle q i (fst (processFile_resume env p T (fst (q ! i)) (snd (q ! i)) st)))
        (snd (processFile_resume env p T (fst (q ! i)) (snd (q ! i)) st))"
  shows "I [] (snd (drain env p T q sched st))"
  using assms
proof (induction env p T q sched st rule: drain.induct)
  case (1 env p T q sched st)
  show ?case
  proof (cases "q = []")
    case True
    with 1 show ?thesis by (simp add: drain_Nil)
  next
    case False
    let ?i = "fst (pick sched (length q))"
    let ?r = "processFile_resume env p T (fst (q ! ?i)) (snd (q ! ?i)) st"
    have "?i < length q" using False by (simp add: pick_less)
    then have "I (settle q ?i (fst ?r)) (snd ?r)" using "1.prems" by blast
    then have "I [] (snd (drain env p T (settle q ?i (fst ?r)) (snd (pick sched (length q))) (snd ?r)))"
      using "1.IH" [OF False refl refl] "1.prems"(2) by blast
    then show ?thesis using False by (subst drain.simps) (simp add: Let_def)
  qed
qed

lemma upload_loop_rule:
  assumes "I files q st" and "length q < CONCURRENT_UPLOADS"
    and start: "\<And>f rest q st. I (f # rest) q st \<Longrightarrow> length q < CONCURRENT_UPLOADS \<Longrightarrow>
      I rest (q @ [(f, AwaitHead)]) (processFile_start env p f st)"
    and step: "\<And>rest q st i. I rest q st \<Longrightarrow> i < length q \<Longrightarrow>
      I rest (settle q i (fst (processFile_resume env p T (fst (q ! i)) (snd (q ! i)) st)))
        (snd (processFile_resume env p T (fst (q ! i)) (snd (q ! i)) st))"
  shows "I [] [] (snd (upload_loop env p T files q sched st))"
  using assms(1,2)
proof (induction files arbitrary: q sched st)
  case Nil
  show ?case using drain_rule [of "I []", OF Nil(1) step] by simp
next
  case (Cons f rest)
  let ?st1 = "processFile_start env p f st"
  let ?q1 = "q @ [(f, AwaitHead)]"
  have I1: "I rest ?q1 ?st1" using Cons.prems by (rule start)
  show ?case
  proof (cases "length ?q1 \<ge> CONCURRENT_UPLOADS")
    case True
    have "I rest [] (snd (drain env p T ?q1 sched ?st1))"
      using drain_rule [of "I rest", OF I1 step] by simp
    moreover have "length ([] :: pending list) < CONCURRENT_UPLOADS"
      by (simp add: CONCURRENT_UPLOADS_def)
    ultimately show ?thesis using True Cons.IH by (simp add: Let_def)
  next
    case False
    then show ?thesis using I1 Cons.IH by (simp add: Let_def)
  qed
qed

subsection \<open>The buckets\<close>

lemma resume_None:
  assumes "consistent env p (f, ph)" and "processFile_resume env p T f ph st = (None, st')"
  shows "uploadedCount st' = uploadedCount st + up_entry env p f"
    and "duplicatedFiles st' = duplicatedFiles st @ dup_entry env p f"
    and "notUploadedFiles st' = notUploadedFiles st @ fail_entry env p f"
    and "processedCount st' = Suc (processedCount st)"
  using assms
  by (auto simp: processFile_resume_def consistent_def outcome_of_def up_entry_def dup_entry_def
      fail_entry_def processed_def emit_def
      split: phase.splits option.splits sum.splits if_splits)

lemma resume_Some:
  assumes "processFile_resume env p T f ph st = (Some ph', st')"
  shows "uploadedCount st' = uploadedCount st"
    and "duplicatedFiles st' = duplicatedFiles st"
    and "notUploadedFiles st' = notUploadedFiles st"
    and "processedCount st' = processedCount st"
    and "consistent env p (f, ph')"
  using assms
  by (auto simp: processFile_resume_def consistent_def emit_def
      split: phase.splits option.splits sum.splits if_splits)

lemma start_fields:
  "uploadedCount (processFile_start env p f st) = uploadedCount st"
  "duplicatedFiles (processFile_start env p f st) = duplicatedFiles st"
  "notUploadedFiles (processFile_start env p f st) = notUploadedFiles st"
  "processedCount (processFile_start env p f st) = processedCount st"
  by (simp_all add: processFile_start_def emit_def)

lemma mset_settle_None:
  "i < length q \<Longrightarrow> mset (settle q i None) + {#q ! i#} = mset q"
proof -
  assume "i < length q"
  then have "q = take i q @ (q ! i) # drop (Suc i) q" by (simp add: id_take_nth_drop)
  then have "mset q = mset (take i q) + {#q ! i#} + mset (drop (Suc i) q)"
    by (metis mset.simps(2) mset_append union_mset_add_mset_right add.right_neutral union_assoc union_commute)
  then show ?thesis by (simp add: settle_def)
qed

lemma mset_settle_Some:
  "i < length q \<Longrightarrow> mset (settle q i (Some ph)) + {#q ! i#} = mset q + {#(fst (q ! i), ph)#}"
  using mset_settle_None [of i q] by (simp add: settle_def)

lemma names_settle_None:
  "i < length q \<Longrightarrow> image_mset fst (mset (settle q i None)) + {#fst (q ! i)#} = image_mset fst (mset q)"
  using mset_settle_None [of i q, THEN arg_cong, of "image_mset fst"] by simp

lemma names_settle_Some:
  "i < length q \<Longrightarrow> image_mset fst (mset (settle q i (Some ph))) = image_mset fst (mset q)"
  using mset_settle_Some [of i q ph, THEN arg_cong, of "image_mset fst"] by simp

lemma set_settle:
  "set (settle q i nxt) \<subseteq> set q \<union> (case nxt of None \<Rightarrow> {} | Some ph \<Rightarrow> {(fst (q ! i), ph)})"
  by (auto simp: settle_def dest: in_set_takeD in_set_dropD split: option.splits)

lemma buckets_inv_start:
  assumes "buckets_inv env p files st0 (f # rest) q s"
  shows "buckets_inv env p files st0 rest (q @ [(f, AwaitHead)]) (processFile_start env p f s)"
  using assms by (simp add: buckets_inv_def todo_def start_fields consistent_def)

lemma buckets_inv_step:
  assumes inv: "buckets_inv env p files st0 rest q s" and i: "i < length q"
  shows "buckets_inv env p files st0 rest
           (settle q i (fst (processFile_resume env p T (fst (q ! i)) (snd (q ! i)) s)))
           (snd (processFile_resume env p T (fst (q ! i)) (snd (q ! i)) s))"
proof -
  let ?f = "fst (q ! i)" and ?ph = "snd (q ! i)"
  let ?r = "processFile_resume env p T ?f ?ph s"
  have cons: "consistent env p (?f, ?ph)"
    using inv i by (simp add: buckets_inv_def)
  show ?thesis
  proof (cases "fst ?r")
    case None
    then have r: "?r = (None, snd ?r)" by (metis prod.collapse)
    have t: "todo q rest = todo (settle q i None) rest + {#?f#}"
      using names_settle_None [OF i] by (simp add: todo_def)
    have "\<forall>t \<in> set (settle q i None). consistent env p t"
      using set_settle [of q i None] inv by (auto simp: buckets_inv_def)
    then show ?thesis
      using inv resume_None [OF cons r] None
      by (simp add: buckets_inv_def t add.assoc)
  next
    case (Some ph')
    then have r: "?r = (Some ph', snd ?r)" by (metis prod.collapse)
    have t: "todo (settle q i (Some ph')) rest = todo q rest"
      using names_settle_Some [OF i] by (simp add: todo_def)
    have "\<forall>t \<in> set (settle q i (Some ph')). consistent env p t"
      using set_settle [of q i "Some ph'"] inv resume_Some(5) [OF r]
      by (auto simp: buckets_inv_def)
    then show ?thesis
      using inv resume_Some(1-4) [OF r] Some
      by (simp add: buckets_inv_def t)
  qed
qed

lemma engine_buckets:
  assumes s_def: "s = snd (upload_loop env p T files [] sched st0)"
  shows "uploadedCount s = uploadedCount st0 + sum_list (map (up_entry env p) files)"
    and "mset (duplicatedFiles s) = mset (duplicatedFiles st0) + mset (concat (map (dup_entry env p) files))"
    and "mset (notUploadedFiles s) = mset (notUploadedFiles st0) + mset (concat (map (fail_entry env p) files))"
    and "processedCount s = processedCount st0 + length files"
proof -
  have "buckets_inv env p files st0 files [] st0"
    by (simp add: buckets_inv_def todo_def)
  moreover have "length ([] :: pending list) < CONCURRENT_UPLOADS"
    by (simp add: CONCURRENT_UPLOADS_def)
  ultimately have "buckets_inv env p files st0 [] [] s"
    unfolding s_def
    by (rule upload_loop_rule [where I = "buckets_inv env p files st0"])
       (simp_all add: buckets_inv_start buckets_inv_step)
  then show "uploadedCount s = uploadedCount st0 + sum_list (map (up_entry env p) files)"
    and "mset (duplicatedFiles s) = mset (duplicatedFiles st0) + mset (concat (map (dup_entry env p) files))"
    and "mset (notUploadedFiles s) = mset (notUploadedFiles st0) + mset (concat (map (fail_entry env p) files))"
    and "processedCount s = processedCount st0 + length files"
    by (simp_all add: buckets_inv_def todo_def mset_concat sum_mset_sum_list [symmetric] comp_def)
qed

subsection \<open>The run after a scan that succeeded\<close>

lemma uploadDirectory_scanned:
  assumes "getAWSConfig env \<noteq> None" and "filesToProcess env (localPath p) = Inr files"
  shows "uploadDirectory env p sched =
           Returned (after_reports env p (print_summary (length files) (engine_result env p files sched)))"
  using assms
  by (auto simp: uploadDirectory_def after_reports_def engine_result_def prelude_def Let_def
      split: sum.splits prod.splits)

lemma emit_fields [simp]:
  "uploadedCount (emit a e st) = uploadedCount st"
  "duplicatedFiles (emit a e st) = duplicatedFiles st"
  "notUploadedFiles (emit a e st) = notUploadedFiles st"
  "processedCount (emit a e st) = processedCount st"
  "events (emit a e st) = events st @ [(a, e)]"
  by (simp_all add: emit_def)

lemma print_summary_fields [simp]:
  "uploadedCount (print_summary n st) = uploadedCount st"
  "duplicatedFiles (print_summary n st) = duplicatedFiles st"
  "notUploadedFiles (print_summary n st) = notUploadedFiles st"
  "processedCount (print_summary n st) = processedCount st"
  by (simp_all add: print_summary_def)

lemma after_reports_fields [simp]:
  "uploadedCount (after_reports env p st) = uploadedCount st"
  "duplicatedFiles (after_reports env p st) = duplicatedFiles st"
  "notUploadedFiles (after_reports env p st) = notUploadedFiles st"
  "processedCount (after_reports env p st) = processedCount st"
  by (auto simp: after_reports_def write_reports_def write_report_def catch_block_def Let_def
      split: sum.splits option.splits prod.splits if_splits)

lemma prelude_fields [simp]:
  "uploadedCount (prelude p) = 0"
  "duplicatedFiles (prelude p) = []"
  "notUploadedFiles (prelude p) = []"
  "processedCount (prelude p) = 0"
  by (simp_all add: prelude_def initial_state_def)

lemma up_entries: "sum_list (map (up_entry env p) files) = length (filter (\<lambda>f. outcome_of env p f = Uploaded) files)"
  by (induction files) (simp_all add: up_entry_def)

lemma dup_entries: "concat (map (dup_entry env p) files) = filter (\<lambda>f. outcome_of env p f = Duplicate) files"
  by (induction files) (simp_all add: dup_entry_def)

lemma fail_entries: "map fst (concat (map (fail_entry env p) files)) = filter (\<lambda>f. is_failed (outcome_of env p f)) files"
  by (induction files) (simp_all add: fail_entry_def is_failed_def split: UploadOutcome.splits)

lemma outcome_classes:
  "mset (filter (\<lambda>f. outcome_of env p f = Uploaded) files) +
   mset (filter (\<lambda>f. outcome_of env p f = Duplicate) files) +
   mset (filter (\<lambda>f. is_failed (outcome_of env p f)) files) = mset files"
  by (induction files) (auto simp: is_failed_def split: UploadOutcome.splits)

lemma engine_result_buckets:
  "uploadedCount (engine_result env p files sched) = length (filter (\<lambda>f. outcome_of env p f = Uploaded) files)"
  "mset (duplicatedFiles (engine_result env p files sched)) = mset (filter (\<lambda>f. outcome_of env p f = Duplicate) files)"
  "mset (notUploadedFiles (engine_result env p files sched)) = mset (concat (map (fail_entry env p) files))"
  "processedCount (engine_result env p files sched) = length files"
  using engine_buckets [OF engine_result_def [of env p files sched]]
  by (simp_all add: up_entries dup_entries)

subsection \<open>What the calls do\<close>

lemma resume_permitted:
  assumes "consistent env p (f, ph)"
    and "x \<in> set (events (snd (processFile_resume env p T f ph s)))"
  shows "x \<in> set (events s) \<or> (\<exists>e. x = (Task f, e) \<and> permitted env p T f e)"
  using assms
  by (auto simp: processFile_resume_def consistent_def outcome_of_def permitted_def head_not_found_def
      processed_def emit_def
      split: phase.splits option.splits sum.splits if_splits)

lemma resume_consistent:
  "processFile_resume env p T f ph s = (Some ph', s') \<Longrightarrow> consistent env p (f, ph')"
  by (rule resume_Some(5))

lemma safety_inv_start:
  assumes "safety_inv env p T files (f # rest) q s"
  shows "safety_inv env p T files rest (q @ [(f, AwaitHead)]) (processFile_start env p f s)"
  using assms
  by (auto simp: safety_inv_def processFile_start_def emit_def consistent_def trace_ok_def permitted_def)

lemma safety_inv_step:
  assumes inv: "safety_inv env p T files rest q s" and i: "i < length q"
  shows "safety_inv env p T files rest
           (settle q i (fst (processFile_resume env p T (fst (q ! i)) (snd (q ! i)) s)))
           (snd (processFile_resume env p T (fst (q ! i)) (snd (q ! i)) s))"
proof -
  let ?f = "fst (q ! i)" and ?ph = "snd (q ! i)"
  let ?r = "processFile_resume env p T ?f ?ph s"
  have qi: "q ! i \<in> set q" using i by simp
  then have cons: "consistent env p (?f, ?ph)" and f: "?f \<in> set files"
    using inv by (auto simp: safety_inv_def)
  have ev: "\<forall>x \<in> set (events (snd ?r)). trace_ok env p T files x"
  proof
    fix x assume "x \<in> set (events (snd ?r))"
    from resume_permitted [OF cons this] inv f show "trace_ok env p T files x"
      by (auto simp: safety_inv_def trace_ok_def)
  qed
  have "\<forall>t \<in> set (settle q i (fst ?r)). fst t \<in> set files \<and> consistent env p t"
  proof (cases "fst ?r")
    case None
    then show ?thesis using set_settle [of q i None] inv by (auto simp: safety_inv_def)
  next
    case (Some ph')
    then have "?r = (Some ph', snd ?r)" by (metis prod.collapse)
    then have "consistent env p (?f, ph')" by (rule resume_consistent)
    then show ?thesis using set_settle [of q i "Some ph'"] inv f Some
      by (auto simp: safety_inv_def)
  qed
  then show ?thesis using inv ev by (simp add: safety_inv_def)
qed

lemma engine_safety:
  assumes "\<forall>x \<in> set (events st0). trace_ok env p T files x"
  shows "\<forall>x \<in> set (events (snd (upload_loop env p T files [] sched st0))). trace_ok env p T files x"
proof -
  have "safety_inv env p T files files [] st0"
    using assms by (simp add: safety_inv_def)
  moreover have "length ([] :: pending list) < CONCURRENT_UPLOADS"
    by (simp add: CONCURRENT_UPLOADS_def)
  ultimately have "safety_inv env p T files [] [] (snd (upload_loop env p T files [] sched st0))"
    by (rule upload_loop_rule [where I = "safety_inv env p T files"])
       (simp_all add: safety_inv_start safety_inv_step)
  then show ?thesis by (simp add: safety_inv_def)
qed

lemma engine_result_safe:
  "\<forall>x \<in> set (events (engine_result env p files sched)). trace_ok env p (length files) files x"
  unfolding engine_result_def
  by (rule engine_safety) (auto simp: prelude_def initial_state_def trace_ok_def)

subsection \<open>What the calls get done\<close>

lemma settle_keeps:
  assumes "x \<in> set q" and "x \<noteq> q ! i"
  shows "x \<in> set (settle q i nxt)"
proof (cases "i < length q")
  case True
  then have "q = take i q @ (q ! i) # drop (Suc i) q" by (simp add: id_take_nth_drop)
  then have "set q = set (take i q) \<union> {q ! i} \<union> set (drop (Suc i) q)"
    by (metis Un_insert_right list.simps(15) set_append sup_bot.right_neutral Un_assoc insert_is_Un)
  then show ?thesis using assms by (auto simp: settle_def)
next
  case False
  then show ?thesis using assms by (simp add: settle_def)
qed

lemma resume_mono:
  "set (events s) \<subseteq> set (events (snd (processFile_resume env p T f ph s)))"
  by (auto simp: processFile_resume_def processed_def emit_def
      split: phase.splits option.splits sum.splits if_splits)

lemma resume_past_head:
  "past_head env p f (events (snd (processFile_resume env p T f AwaitHead s)))"
  by (auto simp: processFile_resume_def processed_def emit_def past_head_def head_not_found_def
      split: phase.splits option.splits sum.splits if_splits)

lemma live_inv_start:
  assumes "live_inv env p files (f # rest) q s"
  shows "live_inv env p files rest (q @ [(f, AwaitHead)]) (processFile_start env p f s)"
  using assms
  by (auto simp: live_inv_def processFile_start_def requested_def past_head_def split: sum.splits)

lemma live_inv_step:
  assumes inv: "live_inv env p files rest q s"
  shows "live_inv env p files rest
           (settle q i (fst (processFile_resume env p T (fst (q ! i)) (snd (q ! i)) s)))
           (snd (processFile_resume env p T (fst (q ! i)) (snd (q ! i)) s))"
proof -
  let ?r = "processFile_resume env p T (fst (q ! i)) (snd (q ! i)) s"
  have mono: "set (events s) \<subseteq> set (events (snd ?r))" by (rule resume_mono)
  show ?thesis
    unfolding live_inv_def
  proof
    fix f assume "f \<in> set files"
    with inv consider "f \<in> set rest"
      | "requested env p f (events s)" "(f, AwaitHead) \<in> set q"
      | "requested env p f (events s)" "past_head env p f (events s)"
      by (auto simp: live_inv_def)
    then show "f \<in> set rest \<or>
        (requested env p f (events (snd ?r)) \<and>
         ((f, AwaitHead) \<in> set (settle q i (fst ?r)) \<or> past_head env p f (events (snd ?r))))"
    proof cases
      case 1
      then show ?thesis by simp
    next
      case 2
      have req: "requested env p f (events (snd ?r))"
        using 2(1) mono by (auto simp: requested_def)
      show ?thesis
      proof (cases "(f, AwaitHead) = q ! i")
        case True
        then have "fst (q ! i) = f" "snd (q ! i) = AwaitHead" by (metis fst_conv, metis snd_conv)
        then have "past_head env p f (events (snd ?r))" using resume_past_head by simp
        with req show ?thesis by simp
      next
        case False
        with 2(2) have "(f, AwaitHead) \<in> set (settle q i (fst ?r))" by (rule settle_keeps)
        with req show ?thesis by simp
      qed
    next
      case 3
      then show ?thesis using mono by (auto simp: requested_def past_head_def split: sum.splits)
    qed
  qed
qed

lemma engine_live:
  assumes "f \<in> set files"
  shows "requested env p f (events (snd (upload_loop env p T files [] sched st0))) \<and>
         past_head env p f (events (snd (upload_loop env p T files [] sched st0)))"
proof -
  have "live_inv env p files files [] st0"
    by (simp add: live_inv_def)
  moreover have "length ([] :: pending list) < CONCURRENT_UPLOADS"
    by (simp add: CONCURRENT_UPLOADS_def)
  ultimately have "live_inv env p files [] [] (snd (upload_loop env p T files [] sched st0))"
    by (rule upload_loop_rule [where I = "live_inv env p files"])
       (simp_all add: live_inv_start live_inv_step)
  then show ?thesis using assms by (simp add: live_inv_def)
qed

subsection \<open>The progress lines\<close>

lemma progress_counts_append [simp]:
  "progress_counts (xs @ ys) = progress_counts xs @ progress_counts ys"
  by (simp add: progress_counts_def)

lemma resume_progress:
  "progress_counts (events (snd (processFile_resume env p T f ph s))) =
     progress_counts (events s) @
       (if fst (processFile_resume env p T f ph s) = None then [(Suc (processedCount s), T)] else [])"
  "processedCount (snd (processFile_resume env p T f ph s)) =
     (if fst (processFile_resume env p T f ph s) = None then Suc (processedCount s) else processedCount s)"
  by (auto simp: processFile_resume_def processed_def emit_def progress_counts_def
      split: phase.splits option.splits sum.splits if_splits)

lemma progress_inv_start:
  assumes "progress_inv T (f # rest) q s"
  shows "progress_inv T rest (q @ [(f, AwaitHead)]) (processFile_start env p f s)"
  using assms by (simp add: progress_inv_def processFile_start_def progress_counts_def)

lemma progress_inv_step:
  assumes "progress_inv T rest q s"
  shows "progress_inv T rest
           (settle q i (fst (processFile_resume env p T f ph s)))
           (snd (processFile_resume env p T f ph s))"
  using assms by (simp add: progress_inv_def resume_progress)

lemma engine_progress:
  assumes "progress_counts (events st0) = []" and "processedCount st0 = 0"
  shows "progress_counts (events (snd (upload_loop env p T files [] sched st0))) =
           map (\<lambda>k. (k, T)) [1..<Suc (processedCount (snd (upload_loop env p T files [] sched st0)))]"
proof -
  have "progress_inv T files [] st0"
    using assms by (simp add: progress_inv_def)
  moreover have "length ([] :: pending list) < CONCURRENT_UPLOADS"
    by (simp add: CONCURRENT_UPLOADS_def)
  ultimately have "progress_inv T [] [] (snd (upload_loop env p T files [] sched st0))"
    by (rule upload_loop_rule [where I = "progress_inv T"])
       (simp_all add: progress_inv_start progress_inv_step)
  then show ?thesis by (simp add: progress_inv_def)
qed

subsection \<open>The calls in flight\<close>

lemma in_flight_append [simp]: "in_flight (xs @ ys) = in_flight xs + in_flight ys"
  by (simp add: in_flight_def)

lemma peak_ok_append:
  "peak_ok K n (xs @ ys) = (peak_ok K n xs \<and> peak_ok K (n + in_flight xs) ys)"
proof (induction xs arbitrary: n)
  case Nil
  show ?case by (cases ys) (auto simp: in_flight_def)
next
  case (Cons x xs)
  show ?case by (auto simp: Cons.IH in_flight_def add.assoc)
qed

lemma peak_ok_prefix:
  "peak_ok K n tr \<Longrightarrow> n + in_flight (take k tr) \<le> K"
proof (induction tr arbitrary: n k)
  case Nil
  then show ?case by (simp add: in_flight_def)
next
  case (Cons x xs)
  show ?case
  proof (cases k)
    case 0
    with Cons.prems show ?thesis by (simp add: in_flight_def)
  next
    case (Suc j)
    from Cons.prems have "peak_ok K (n + delta x) xs" by simp
    from Cons.IH [OF this, of j] show ?thesis by (simp add: Suc in_flight_def add.assoc)
  qed
qed

lemma resume_flight:
  "\<exists>new. events (snd (processFile_resume env p T f ph s)) = events s @ new \<and>
     in_flight new = (if fst (processFile_resume env p T f ph s) = None then - 1 else 0) \<and>
     (\<forall>n K. 0 < n \<and> n \<le> K \<longrightarrow> peak_ok K n new)"
  by (auto simp: processFile_resume_def processed_def emit_def in_flight_def delta_def
      split: phase.splits option.splits sum.splits if_splits)

lemma length_settle:
  "i < length q \<Longrightarrow> length (settle q i nxt) = (case nxt of None \<Rightarrow> length q - 1 | Some ph \<Rightarrow> length q)"
  by (auto simp: settle_def split: option.splits)

lemma flight_inv_start:
  assumes "flight_inv (f # rest) q s" and "length q < CONCURRENT_UPLOADS"
  shows "flight_inv rest (q @ [(f, AwaitHead)]) (processFile_start env p f s)"
  using assms
  by (auto simp: flight_inv_def processFile_start_def peak_ok_append in_flight_def delta_def)

lemma flight_inv_step:
  assumes inv: "flight_inv rest q s" and i: "i < length q"
  shows "flight_inv rest
           (settle q i (fst (processFile_resume env p T f ph s)))
           (snd (processFile_resume env p T f ph s))"
proof -
  let ?r = "processFile_resume env p T f ph s"
  obtain new where new: "events (snd ?r) = events s @ new"
    "in_flight new = (if fst ?r = None then - 1 else 0)"
    "\<forall>n K. 0 < n \<and> n \<le> K \<longrightarrow> peak_ok K n new"
    using resume_flight [of env p T f ph s] by blast
  have "0 < int (length q)" "int (length q) \<le> int CONCURRENT_UPLOADS"
    using i inv by (auto simp: flight_inv_def)
  then have "peak_ok (int CONCURRENT_UPLOADS) (int (length q)) new"
    using new(3) by blast
  then show ?thesis
    using inv i new(1,2)
    by (auto simp: flight_inv_def peak_ok_append length_settle split: option.splits)
qed

lemma engine_flight:
  assumes "in_flight (events st0) = 0" and "peak_ok (int CONCURRENT_UPLOADS) 0 (events st0)"
  shows "in_flight (events (snd (upload_loop env p T files [] sched st0))) = 0 \<and>
         peak_ok (int CONCURRENT_UPLOADS) 0 (events (snd (upload_loop env p T files [] sched st0)))"
proof -
  have "flight_inv files [] st0"
    using assms by (simp add: flight_inv_def)
  moreover have "length ([] :: pending list) < CONCURRENT_UPLOADS"
    by (simp add: CONCURRENT_UPLOADS_def)
  ultimately have "flight_inv [] [] (snd (upload_loop env p T files [] sched st0))"
    by (rule upload_loop_rule [where I = "flight_inv"])
       (simp_all add: flight_inv_start flight_inv_step)
  then show ?thesis by (simp add: flight_inv_def)
qed

subsection \<open>The loop runs the batches\<close>

declare chunks.simps [simp del]

lemma chunks_Nil [simp]: "chunks n [] = []"
  by (simp add: chunks.simps)

lemma chunks_exact:
  assumes "0 < n" and "length xs = n"
  shows "chunks n (xs @ ys) = xs # chunks n ys"
  using assms by (subst chunks.simps) auto

lemma chunks_short:
  assumes "xs \<noteq> []" and "length xs \<le> n"
  shows "chunks n xs = [xs]"
proof -
  have "0 < n" using assms by (cases xs) auto
  then show ?thesis using assms by (subst chunks.simps) auto
qed

lemma concat_chunks: "0 < n \<Longrightarrow> concat (chunks n xs) = xs"
proof (induction n xs rule: chunks.induct)
  case (1 n xs)
  show ?case
  proof (cases "xs = []")
    case True
    then show ?thesis by simp
  next
    case False
    with 1 show ?thesis by (subst chunks.simps) simp
  qed
qed

lemma chunks_sizes: "list_all (\<lambda>b. b \<noteq> [] \<and> length b \<le> n) (chunks n xs)"
proof (induction n xs rule: chunks.induct)
  case (1 n xs)
  show ?case
  proof (cases "n = 0 \<or> xs = []")
    case True
    then show ?thesis by (subst chunks.simps) simp
  next
    case False
    with 1 show ?thesis by (subst chunks.simps) auto
  qed
qed

lemma start_all_snoc:
  "start_all env p (qs @ [f]) st = processFile_start env p f (start_all env p qs st)"
  by (simp add: start_all_def)

lemma loop_batches:
  assumes "length qs < CONCURRENT_UPLOADS"
  shows "upload_loop env p T files (map (\<lambda>f. (f, AwaitHead)) qs) sched (start_all env p qs st) =
         run_batches env p T (chunks CONCURRENT_UPLOADS (qs @ files)) sched st"
  using assms
proof (induction files arbitrary: qs sched st)
  case Nil
  show ?case
  proof (cases "qs = []")
    case True
    then show ?thesis by (simp add: drain_Nil start_all_def)
  next
    case False
    then have "chunks CONCURRENT_UPLOADS qs = [qs]"
      using Nil by (simp add: chunks_short)
    then show ?thesis by (simp add: run_batch_def)
  qed
next
  case (Cons f rest)
  let ?qs1 = "qs @ [f]"
  have st1: "processFile_start env p f (start_all env p qs st) = start_all env p ?qs1 st"
    by (simp add: start_all_snoc)
  have q1: "map (\<lambda>f. (f, AwaitHead)) qs @ [(f, AwaitHead)] = map (\<lambda>f. (f, AwaitHead)) ?qs1"
    by simp
  show ?case
  proof (cases "length ?qs1 \<ge> CONCURRENT_UPLOADS")
    case True
    then have len: "length ?qs1 = CONCURRENT_UPLOADS" using Cons.prems by simp
    have pos: "0 < CONCURRENT_UPLOADS" by (simp add: CONCURRENT_UPLOADS_def)
    have ch: "chunks CONCURRENT_UPLOADS (qs @ f # rest) = ?qs1 # chunks CONCURRENT_UPLOADS rest"
      using chunks_exact [OF pos len, of rest] by simp
    have "upload_loop env p T (f # rest) (map (\<lambda>f. (f, AwaitHead)) qs) sched (start_all env p qs st) =
          upload_loop env p T rest [] (fst (run_batch env p T ?qs1 sched st))
            (snd (run_batch env p T ?qs1 sched st))"
      using True by (simp add: Let_def st1 run_batch_def)
    also have "\<dots> = run_batches env p T (chunks CONCURRENT_UPLOADS rest)
                       (fst (run_batch env p T ?qs1 sched st)) (snd (run_batch env p T ?qs1 sched st))"
      using Cons.IH [of "[]" "fst (run_batch env p T ?qs1 sched st)" "snd (run_batch env p T ?qs1 sched st)"] pos
      by (simp add: start_all_def)
    finally show ?thesis by (simp add: ch Let_def)
  next
    case False
    then have "length ?qs1 < CONCURRENT_UPLOADS" by simp
    from Cons.IH [OF this, of sched st] False show ?thesis
      by (simp add: Let_def st1)
  qed
qed

lemma events_start_all:
  "events (start_all env p batch st) =
     events st @ map (\<lambda>f. (Task f, S3_headObject (bucketName p) (s3Key env p f))) batch"
proof (induction batch rule: rev_induct)
  case Nil
  show ?case by (simp add: start_all_def)
next
  case (snoc f batch)
  then show ?case by (simp add: start_all_snoc processFile_start_def)
qed

lemma resume_batch:
  "\<exists>new. events (snd (processFile_resume env p T f ph s)) = events s @ new \<and>
     filter is_request new = [] \<and>
     length (filter is_progress new) = (if fst (processFile_resume env p T f ph s) = None then 1 else 0)"
  by (auto simp: processFile_resume_def processed_def emit_def is_request_def is_progress_def
      split: phase.splits option.splits sum.splits if_splits)

lemma batch_inv_step:
  assumes inv: "batch_inv tr0 n q s" and i: "i < length q"
  shows "batch_inv tr0 n
           (settle q i (fst (processFile_resume env p T f ph s)))
           (snd (processFile_resume env p T f ph s))"
proof -
  let ?r = "processFile_resume env p T f ph s"
  obtain new where new: "events (snd ?r) = events s @ new" "filter is_request new = []"
    "length (filter is_progress new) = (if fst ?r = None then 1 else 0)"
    using resume_batch [of env p T f ph s] by blast
  obtain tail where tail: "events s = tr0 @ tail" "filter is_request tail = []"
    "length (filter is_progress tail) + length q = n"
    using inv by (auto simp: batch_inv_def)
  have "events (snd ?r) = tr0 @ (tail @ new)" using new(1) tail(1) by simp
  moreover have "filter is_request (tail @ new) = []" using new(2) tail(2) by simp
  moreover have "length (filter is_progress (tail @ new)) + length (settle q i (fst ?r)) = n"
    using new(3) tail(3) i by (auto simp: length_settle split: option.splits)
  ultimately show ?thesis unfolding batch_inv_def by blast
qed

lemma run_batch_events:
  "\<exists>tail. events (snd (run_batch env p T batch sched st)) =
       events st @ map (\<lambda>f. (Task f, S3_headObject (bucketName p) (s3Key env p f))) batch @ tail \<and>
     filter is_request tail = [] \<and> length (filter is_progress tail) = length batch"
proof -
  let ?st1 = "start_all env p batch st"
  have "batch_inv (events ?st1) (length batch) (map (\<lambda>f. (f, AwaitHead)) batch) ?st1"
    by (simp add: batch_inv_def)
  then have "batch_inv (events ?st1) (length batch) [] (snd (run_batch env p T batch sched st))"
    unfolding run_batch_def
    by (rule drain_rule [where I = "batch_inv (events ?st1) (length batch)"])
       (simp add: batch_inv_step)
  then show ?thesis by (auto simp: batch_inv_def events_start_all)
qed

subsection \<open>From the loop to the end of the run\<close>

lemma events_print_summary:
  "events (print_summary n st) = events st @ summary_lines n st"
  by (simp add: print_summary_def summary_lines_def)

lemma summary_lines_quiet: "\<forall>x \<in> set (summary_lines n st). quiet x"
  by (simp add: summary_lines_def quiet_def delta_def)

lemma after_reports_events:
  "\<exists>tail. events (after_reports env p st) = events st @ tail \<and> (\<forall>x \<in> set tail. quiet x)"
  by (auto simp: after_reports_def write_reports_def write_report_def catch_block_def Let_def
      quiet_def delta_def split: sum.splits option.splits prod.splits if_splits)

lemma quiet_progress: "\<forall>x \<in> set tr. quiet x \<Longrightarrow> progress_counts tr = []"
  by (induction tr) (auto simp: progress_counts_def quiet_def delta_def split: event.splits msg.splits)

lemma quiet_in_flight: "\<forall>x \<in> set tr. quiet x \<Longrightarrow> in_flight tr = 0"
  by (induction tr) (auto simp: in_flight_def quiet_def)

lemma quiet_peak: "\<forall>x \<in> set tr. quiet x \<Longrightarrow> peak_ok K n tr = (n \<le> K)"
  by (induction tr) (auto simp: quiet_def)

lemma quiet_not_task: "\<forall>x \<in> set tr. quiet x \<Longrightarrow> (Task f, e) \<notin> set tr"
  by (auto simp: quiet_def)

lemma final_events:
  assumes "getAWSConfig env \<noteq> None" and "filesToProcess env (localPath p) = Inr files"
  shows "\<exists>tail. events (final_state (uploadDirectory env p sched)) =
           events (engine_result env p files sched) @
           summary_lines (length files) (engine_result env p files sched) @ tail \<and>
           (\<forall>x \<in> set tail. quiet x)"
proof -
  let ?st = "engine_result env p files sched"
  obtain tail where "events (after_reports env p (print_summary (length files) ?st)) =
      events (print_summary (length files) ?st) @ tail" "\<forall>x \<in> set tail. quiet x"
    using after_reports_events by blast
  then show ?thesis
    using uploadDirectory_scanned [OF assms, of sched]
    by (simp add: final_state_def events_print_summary)
qed

lemma final_task_events:
  assumes "getAWSConfig env \<noteq> None" and "filesToProcess env (localPath p) = Inr files"
  shows "(Task f, e) \<in> set (events (final_state (uploadDirectory env p sched))) \<longleftrightarrow>
         (Task f, e) \<in> set (events (engine_result env p files sched))"
proof -
  obtain tail where t: "events (final_state (uploadDirectory env p sched)) =
           events (engine_result env p files sched) @
           summary_lines (length files) (engine_result env p files sched) @ tail"
          "\<forall>x \<in> set tail. quiet x"
    using final_events [OF assms] by blast
  show ?thesis
    using quiet_not_task [OF t(2)] quiet_not_task [OF summary_lines_quiet]
    by (auto simp: t(1))
qed

lemma final_buckets:
  assumes "getAWSConfig env \<noteq> None" and "filesToProcess env (localPath p) = Inr files"
  shows "uploadedCount (final_state (uploadDirectory env p sched)) = uploadedCount (engine_result env p files sched)"
    and "duplicatedFiles (final_state (uploadDirectory env p sched)) = duplicatedFiles (engine_result env p files sched)"
    and "notUploadedFiles (final_state (uploadDirectory env p sched)) = notUploadedFiles (engine_result env p files sched)"
    and "processedCount (final_state (uploadDirectory env p sched)) = processedCount (engine_result env p files sched)"
  using uploadDirectory_scanned [OF assms, of sched] by (simp_all add: final_state_def)

lemma engine_result_live:
  assumes "f \<in> set files"
  shows "requested env p f (events (engine_result env p files sched))"
    and "past_head env p f (events (engine_result env p files sched))"
  using engine_live [OF assms] by (simp_all add: engine_result_def)

lemma engine_result_progress:
  "progress_counts (events (engine_result env p files sched)) =
     map (\<lambda>k. (k, length files)) [1..<Suc (length files)]"
proof -
  let ?st0 = "emit Main_body (Console_log (FoundFiles (length files))) (prelude p)"
  have "progress_counts (events ?st0) = []" "processedCount ?st0 = 0"
    by (simp_all add: prelude_def initial_state_def progress_counts_def)
  from engine_progress [OF this, of env p "length files" files sched]
  show ?thesis
    using engine_result_buckets(4) [of env p files sched] by (simp add: engine_result_def)
qed

lemma engine_result_flight:
  "in_flight (events (engine_result env p files sched)) = 0"
  "peak_ok (int CONCURRENT_UPLOADS) 0 (events (engine_result env p files sched))"
proof -
  let ?st0 = "emit Main_body (Console_log (FoundFiles (length files))) (prelude p)"
  have "in_flight (events ?st0) = 0" "peak_ok (int CONCURRENT_UPLOADS) 0 (events ?st0)"
    by (simp_all add: prelude_def initial_state_def in_flight_def delta_def)
  from engine_flight [OF this, of env p "length files" files sched]
  show "in_flight (events (engine_result env p files sched)) = 0"
    "peak_ok (int CONCURRENT_UPLOADS) 0 (events (engine_result env p files sched))"
    by (simp_all add: engine_result_def)
qed

lemma count_list_filter:
  "count_list (filter P xs) x = (if P x then count_list xs x else 0)"
  by (induction xs) auto

lemma set_buckets:
  assumes "getAWSConfig env \<noteq> None" and "filesToProcess env (localPath p) = Inr files"
  shows "set (duplicatedFiles (final_state (uploadDirectory env p sched))) =
           {f \<in> set files. outcome_of env p f = Duplicate}"
    and "set (notUploadedFiles (final_state (uploadDirectory env p sched))) =
           {(f, m). f \<in> set files \<and> outcome_of env p f = Failed m}"
    and "count_list (duplicatedFiles (final_state (uploadDirectory env p sched))) f =
           (if outcome_of env p f = Duplicate then count_list files f else 0)"
proof -
  let ?st = "engine_result env p files sched"
  have d: "mset (duplicatedFiles ?st) = mset (filter (\<lambda>f. outcome_of env p f = Duplicate) files)"
    and n: "mset (notUploadedFiles ?st) = mset (concat (map (fail_entry env p) files))"
    by (rule engine_result_buckets)+
  have "set (duplicatedFiles ?st) = set (filter (\<lambda>f. outcome_of env p f = Duplicate) files)"
    using d by (rule mset_eq_setD)
  then show "set (duplicatedFiles (final_state (uploadDirectory env p sched))) =
           {f \<in> set files. outcome_of env p f = Duplicate}"
    by (simp add: final_buckets [OF assms])
  have "set (notUploadedFiles ?st) = set (concat (map (fail_entry env p) files))"
    using n by (rule mset_eq_setD)
  also have "\<dots> = {(f, m). f \<in> set files \<and> outcome_of env p f = Failed m}"
    by (auto simp: fail_entry_def split: UploadOutcome.splits)
  finally show "set (notUploadedFiles (final_state (uploadDirectory env p sched))) =
           {(f, m). f \<in> set files \<and> outcome_of env p f = Failed m}"
    by (simp add: final_buckets [OF assms])
  have "count_list (duplicatedFiles ?st) f =
        count_list (filter (\<lambda>f. outcome_of env p f = Duplicate) files) f"
    by (metis count_mset d)
  then show "count_list (duplicatedFiles (final_state (uploadDirectory env p sched))) f =
           (if outcome_of env p f = Duplicate then count_list files f else 0)"
    by (simp add: final_buckets [OF assms] count_list_filter)
qed

lemma final_permitted:
  assumes "getAWSConfig env \<noteq> None" and "filesToProcess env (localPath p) = Inr files"
    and "(Task g, e) \<in> set (events (final_state (uploadDirectory env p sched)))"
  shows "g \<in> set files \<and> permitted env p (length files) g e"
  using engine_result_safe [of env p files sched] assms(3)
  by (auto simp: final_task_events [OF assms(1,2)] trace_ok_def)

lemma engine_result_failed_names:
  "mset (map fst (notUploadedFiles (engine_result env p files sched))) =
     mset (filter (\<lambda>f. is_failed (outcome_of env p f)) files)"
  using arg_cong [OF engine_result_buckets(3) [of env p files sched], of "image_mset fst"]
  by (simp add: fail_entries [symmetric])

lemma engine_result_sum:
  "uploadedCount (engine_result env p files sched) +
   length (duplicatedFiles (engine_result env p files sched)) +
   length (notUploadedFiles (engine_result env p files sched)) = length files"
proof -
  let ?e = "engine_result env p files sched"
  have "mset (filter (\<lambda>f. outcome_of env p f = Uploaded) files @ duplicatedFiles ?e @
             map fst (notUploadedFiles ?e)) = mset files"
    using outcome_classes [of env p files] engine_result_buckets(2) [of env p files sched]
      engine_result_failed_names [of env p files sched]
    by (simp add: add.assoc)
  then have "length (filter (\<lambda>f. outcome_of env p f = Uploaded) files @ duplicatedFiles ?e @
             map fst (notUploadedFiles ?e)) = length files"
    by (rule mset_eq_length)
  then show ?thesis
    by (simp add: engine_result_buckets(1))
qed

lemma reaches_total_once:
  "length (filter (\<lambda>x. fst x = snd x) (map (\<lambda>k. (k, T)) [1..<Suc T])) = (if T = 0 then 0 else 1)"
proof (cases T)
  case 0
  then show ?thesis by simp
next
  case (Suc n)
  have "filter (\<lambda>k. k = Suc n) [1..<Suc n] = []"
    by (auto simp: filter_empty_conv)
  then show ?thesis using Suc by (simp add: filter_map comp_def)
qed

subsection \<open>The runs that end early\<close>

lemma uploadDirectory_no_config:
  assumes "getAWSConfig env = None"
  shows "uploadDirectory env p sched =
           ProcessExit 1
             (initial_state\<lparr>events :=
                (Main_body, Console_log (Text ''Starting upload process...'')) # missing_credentials\<rparr>)"
  using assms by (simp add: uploadDirectory_def Let_def emit_def initial_state_def)

lemma uploadDirectory_scan_failed:
  assumes "getAWSConfig env \<noteq> None" and "filesToProcess env (localPath p) = Inl error"
  shows "uploadDirectory env p sched = Returned (catch_block p error (prelude p))"
  using assms by (auto simp: uploadDirectory_def Let_def prelude_def)

lemma prelude_quiet: "\<forall>x \<in> set (events (prelude p)). quiet x"
  by (simp add: prelude_def initial_state_def quiet_def delta_def)

lemma catch_block_quiet:
  "\<forall>x \<in> set (events st). quiet x \<Longrightarrow> \<forall>x \<in> set (events (catch_block p error st)). quiet x"
  by (auto simp: catch_block_def Let_def quiet_def delta_def)

lemma run_peak:
  "peak_ok (int CONCURRENT_UPLOADS) 0 (events (final_state (uploadDirectory env p sched)))"
proof (cases "getAWSConfig env = None")
  case True
  have "\<forall>x \<in> set (events (final_state (uploadDirectory env p sched))). quiet x"
    by (simp add: uploadDirectory_no_config [OF True] final_state_def missing_credentials_def
        quiet_def delta_def)
  then show ?thesis by (simp add: quiet_peak)
next
  case False
  show ?thesis
  proof (cases "filesToProcess env (localPath p)")
    case (Inl error)
    have "\<forall>x \<in> set (events (final_state (uploadDirectory env p sched))). quiet x"
      using catch_block_quiet [OF prelude_quiet]
      by (simp add: uploadDirectory_scan_failed [OF False Inl] final_state_def)
    then show ?thesis by (simp add: quiet_peak)
  next
    case (Inr files)
    obtain tail where t: "events (final_state (uploadDirectory env p sched)) =
           events (engine_result env p files sched) @
           summary_lines (length files) (engine_result env p files sched) @ tail"
          "\<forall>x \<in> set tail. quiet x"
      using final_events [OF False Inr] by blast
    have q: "\<forall>x \<in> set (summary_lines (length files) (engine_result env p files sched) @ tail). quiet x"
      using t(2) summary_lines_quiet by auto
    have "peak_ok (int CONCURRENT_UPLOADS) 0
            (events (engine_result env p files sched) @
             (summary_lines (length files) (engine_result env p files sched) @ tail))"
      using engine_result_flight [of env p files sched] quiet_peak [OF q]
      by (simp only: peak_ok_append) simp
    then show ?thesis by (simp only: t(1))
  qed
qed

subsection \<open>Reports and empty scans\<close>

lemma write_calls_append [simp]:
  "write_calls (xs @ ys) = write_calls xs @ write_calls ys"
  by (simp add: write_calls_def)

lemma trace_ok_not_written:
  "\<forall>x \<in> set tr. trace_ok env p T files x \<Longrightarrow> write_calls tr = []"
  by (induction tr)
     (auto simp: write_calls_def trace_ok_def permitted_def split: actor.splits event.splits)

lemma timestamp_safe:
  "CHR '':'' \<notin> set (timestamp env)" "CHR ''.'' \<notin> set (timestamp env)"
  "length (timestamp env) = length (toISOString env)"
  by (auto simp: timestamp_def)


subsection \<open>The content and the writing of the reports\<close>

lemma hex_digits: "list_all (\<lambda>k. hex_value (hex_digit k) = Some k) [0..<16]"
  by code_simp

lemma hex_value_digit: "hex_value (hex_digit k) = Some (k mod 16)"
proof -
  have "k mod 16 \<in> set [0..<16]" by simp
  then have "hex_value (hex_digit (k mod 16)) = Some (k mod 16)"
    using hex_digits unfolding list_all_iff by blast
  then show ?thesis by (simp add: hex_digit_def)
qed

lemma unescape_escape:
  "unescape (json_escape c @ rest) = map_option ((#) c) (unescape rest)"
proof (cases "(of_char c :: nat) < 32")
  case True
  have z: "hex_value CHR ''0'' = Some 0"
    by (simp add: hex_value_def)
  have n: "16 * ((of_char c :: nat) div 16 mod 16) + of_char c mod 16 = of_char c"
    using True by simp
  have u: "CHR ''u'' \<noteq> CHR 0x5C" by simp
  show ?thesis
    using True
    by (auto simp: json_escape_def escape_letter_def hex_value_digit z n)
next
  case False
  then show ?thesis
    by (auto simp: json_escape_def escape_letter_def)
qed

lemma unescape_concat:
  "unescape (concat (map json_escape s)) = Some s"
  by (induction s) (simp_all add: unescape_escape)

lemma json_unquote_quote: "json_unquote (json_quote s) = Some s"
  by (simp add: json_unquote_def json_quote_def unescape_concat)

lemma hex_digit_not_newline: "hex_digit k \<noteq> CHR 0x0A"
proof -
  have "list_all (\<lambda>k. hex_digit k \<noteq> CHR 0x0A) [0..<16]" by code_simp
  moreover have "k mod 16 \<in> set [0..<16]" by simp
  ultimately have "hex_digit (k mod 16) \<noteq> CHR 0x0A" unfolding list_all_iff by blast
  then show ?thesis by (simp add: hex_digit_def)
qed

lemma json_escape_one_line: "CHR 0x0A \<notin> set (json_escape c)"
  using hex_digit_not_newline [of "of_char c div 16"] hex_digit_not_newline [of "of_char c"]
  by (simp add: json_escape_def)

lemma json_quote_one_line: "CHR 0x0A \<notin> set (json_quote s)"
  by (simp add: json_quote_def json_escape_one_line)

lemma join_lines_explicit:
  "xs \<noteq> [] \<Longrightarrow>
   join_lines xs = concat (map (\<lambda>s. s @ [CHR '','', CHR 0x0A]) (butlast xs)) @ last xs"
  by (induction xs rule: join_lines.induct) simp_all

lemma stringify_names_explicit:
  assumes "names \<noteq> []"
  shows "stringify_names names =
           ''['' @ [CHR 0x0A] @
           concat (map (\<lambda>s. ''  '' @ json_quote s @ [CHR '','', CHR 0x0A]) (butlast names)) @
           ''  '' @ json_quote (last names) @ [CHR 0x0A] @ '']''"
  using assms
  by (simp add: stringify_names_def join_lines_explicit map_butlast [symmetric] last_map comp_def)

lemma stringify_records_explicit:
  assumes "records \<noteq> []"
  shows "stringify_records records =
           ''['' @ [CHR 0x0A] @
           concat (map (\<lambda>r. stringify_record r @ [CHR '','', CHR 0x0A]) (butlast records)) @
           stringify_record (last records) @ [CHR 0x0A] @ '']''"
  using assms
  by (simp add: stringify_records_def join_lines_explicit map_butlast [symmetric] last_map comp_def)

lemma stringify_record_explicit:
  "stringify_record (f, Str m) =
     ''  {'' @ [CHR 0x0A] @
     ''    '' @ [CHR 0x22] @ ''file'' @ [CHR 0x22] @ '': '' @ json_quote f @ [CHR '','', CHR 0x0A] @
     ''    '' @ [CHR 0x22] @ ''error'' @ [CHR 0x22] @ '': '' @ json_quote m @ [CHR 0x0A] @
     ''  }''"
  "stringify_record (f, Null) =
     ''  {'' @ [CHR 0x0A] @
     ''    '' @ [CHR 0x22] @ ''file'' @ [CHR 0x22] @ '': '' @ json_quote f @ [CHR '','', CHR 0x0A] @
     ''    '' @ [CHR 0x22] @ ''error'' @ [CHR 0x22] @ '': null'' @ [CHR 0x0A] @
     ''  }''"
  "stringify_record (f, Undefined) =
     ''  {'' @ [CHR 0x0A] @
     ''    '' @ [CHR 0x22] @ ''file'' @ [CHR 0x22] @ '': '' @ json_quote f @ [CHR 0x0A] @
     ''  }''"
proof -
  have q: "json_quote ''file'' = [CHR 0x22] @ ''file'' @ [CHR 0x22]"
    "json_quote ''error'' = [CHR 0x22] @ ''error'' @ [CHR 0x22]"
    by code_simp+
  show "stringify_record (f, Str m) =
     ''  {'' @ [CHR 0x0A] @
     ''    '' @ [CHR 0x22] @ ''file'' @ [CHR 0x22] @ '': '' @ json_quote f @ [CHR '','', CHR 0x0A] @
     ''    '' @ [CHR 0x22] @ ''error'' @ [CHR 0x22] @ '': '' @ json_quote m @ [CHR 0x0A] @
     ''  }''"
    "stringify_record (f, Null) =
     ''  {'' @ [CHR 0x0A] @
     ''    '' @ [CHR 0x22] @ ''file'' @ [CHR 0x22] @ '': '' @ json_quote f @ [CHR '','', CHR 0x0A] @
     ''    '' @ [CHR 0x22] @ ''error'' @ [CHR 0x22] @ '': null'' @ [CHR 0x0A] @
     ''  }''"
    "stringify_record (f, Undefined) =
     ''  {'' @ [CHR 0x0A] @
     ''    '' @ [CHR 0x22] @ ''file'' @ [CHR 0x22] @ '': '' @ json_quote f @ [CHR 0x0A] @
     ''  }''"
    by (simp_all add: stringify_record_def record_properties_def q)
qed

lemma after_reports_calls:
  "write_calls (events (after_reports env p st)) =
     write_calls (events st) @
     (if duplicatedFiles st \<noteq> []
      then [(duplicatedLogFile env, stringify_names (duplicatedFiles st))] else []) @
     (if notUploadedFiles st \<noteq> [] \<and>
         (duplicatedFiles st = [] \<or>
          writeFileSync env (duplicatedLogFile env) (stringify_names (duplicatedFiles st)) = None)
      then [(notUploadedLogFile env, stringify_records (notUploadedFiles st))] else [])"
  by (auto simp: after_reports_def write_reports_def write_report_def catch_block_def Let_def
      write_calls_def split: option.splits)

lemma final_write_calls:
  assumes "getAWSConfig env \<noteq> None" and "filesToProcess env (localPath p) = Inr files"
  shows "write_calls (events (final_state (uploadDirectory env p sched))) =
     (if duplicatedFiles (final_state (uploadDirectory env p sched)) \<noteq> []
      then [(duplicatedLogFile env,
             stringify_names (duplicatedFiles (final_state (uploadDirectory env p sched))))]
      else []) @
     (if notUploadedFiles (final_state (uploadDirectory env p sched)) \<noteq> [] \<and>
         (duplicatedFiles (final_state (uploadDirectory env p sched)) = [] \<or>
          writeFileSync env (duplicatedLogFile env)
            (stringify_names (duplicatedFiles (final_state (uploadDirectory env p sched)))) = None)
      then [(notUploadedLogFile env,
             stringify_records (notUploadedFiles (final_state (uploadDirectory env p sched))))]
      else [])"
proof -
  let ?e = "engine_result env p files sched"
  have fin: "final_state (uploadDirectory env p sched) =
               after_reports env p (print_summary (length files) ?e)"
    using uploadDirectory_scanned [OF assms, of sched] by (simp add: final_state_def)
  have "write_calls (events ?e) = []"
    using engine_result_safe [of env p files sched] by (rule trace_ok_not_written)
  moreover have "write_calls (summary_lines (length files) ?e) = []"
    by (simp add: summary_lines_def write_calls_def)
  ultimately have "write_calls (events (print_summary (length files) ?e)) = []"
    by (simp add: events_print_summary)
  then show ?thesis
    unfolding fin after_reports_calls by simp
qed

section \<open>The claims\<close>

text \<open>
  C1.  When the credentials are set and the scan of the directory gives \<open>files\<close>,
  then at the end of the run, for every schedule, \<open>uploadedCount\<close> plus the lengths of
  \<open>duplicatedFiles\<close> and \<open>notUploadedFiles\<close> is the number of files.  The three
  buckets hold the three classes of files that the answers of the environment define
  (uploaded, duplicate, failed), so together they hold every file once: none is in two
  buckets and none is left out.
\<close>

theorem outcome_buckets_partition:
  assumes "getAWSConfig env \<noteq> None" and "filesToProcess env (localPath p) = Inr files"
  shows "let st = final_state (uploadDirectory env p sched) in
           uploadedCount st + length (duplicatedFiles st) + length (notUploadedFiles st) = length files \<and>
           uploadedCount st = length (filter (\<lambda>f. outcome_of env p f = Uploaded) files) \<and>
           mset (duplicatedFiles st) = mset (filter (\<lambda>f. outcome_of env p f = Duplicate) files) \<and>
           mset (map fst (notUploadedFiles st)) = mset (filter (\<lambda>f. is_failed (outcome_of env p f)) files) \<and>
           mset (filter (\<lambda>f. outcome_of env p f = Uploaded) files) + mset (duplicatedFiles st) +
             mset (map fst (notUploadedFiles st)) = mset files"
proof -
  let ?st = "engine_result env p files sched"
  have fin: "final_state (uploadDirectory env p sched) =
               after_reports env p (print_summary (length files) ?st)"
    using uploadDirectory_scanned [OF assms] by (simp add: final_state_def)
  have u: "uploadedCount ?st = length (filter (\<lambda>f. outcome_of env p f = Uploaded) files)"
    and d: "mset (duplicatedFiles ?st) = mset (filter (\<lambda>f. outcome_of env p f = Duplicate) files)"
    and n: "mset (notUploadedFiles ?st) = mset (concat (map (fail_entry env p) files))"
    by (rule engine_result_buckets)+
  have n': "mset (map fst (notUploadedFiles ?st)) = mset (filter (\<lambda>f. is_failed (outcome_of env p f)) files)"
    using arg_cong [OF n, of "image_mset fst"] by (simp add: fail_entries [symmetric])
  have part: "mset (filter (\<lambda>f. outcome_of env p f = Uploaded) files) + mset (duplicatedFiles ?st) +
             mset (map fst (notUploadedFiles ?st)) = mset files"
    using outcome_classes [of env p files] d n' by simp
  have "mset (filter (\<lambda>f. outcome_of env p f = Uploaded) files @ duplicatedFiles ?st @
             map fst (notUploadedFiles ?st)) = mset files"
    using part by (simp add: add.assoc)
  then have "length (filter (\<lambda>f. outcome_of env p f = Uploaded) files @ duplicatedFiles ?st @
             map fst (notUploadedFiles ?st)) = length files"
    by (rule mset_eq_length)
  then have "uploadedCount ?st + length (duplicatedFiles ?st) + length (notUploadedFiles ?st) = length files"
    by (simp add: u)
  then show ?thesis
    using u d n' part by (simp add: fin Let_def)
qed

theorem outcome_buckets_partition_witness:
  "getAWSConfig demo_env \<noteq> None \<and>
   filesToProcess demo_env (localPath demo_params) = Inr [''a.txt'', ''b.txt'', ''c.txt'', ''d.txt''] \<and>
   (let st = final_state (uploadDirectory demo_env demo_params [3, 0, 1]) in
      uploadedCount st + length (duplicatedFiles st) + length (notUploadedFiles st) = 4)"
proof -
  have h1: "getAWSConfig demo_env \<noteq> None"
    by code_simp
  have h2: "filesToProcess demo_env (localPath demo_params) =
              Inr [''a.txt'', ''b.txt'', ''c.txt'', ''d.txt'']"
    by code_simp
  show ?thesis
    using h1 h2 outcome_buckets_partition [OF h1 h2, of "[3, 0, 1]"] by (simp add: Let_def)
qed

text \<open>
  C2.  When the credentials are set, the scan gives \<open>files\<close>, and \<open>headObject\<close>
  resolves for the key of a file \<open>f\<close> of the scan (the object exists), then in every
  run, whatever the schedule: \<open>f\<close> is recorded in \<open>duplicatedFiles\<close>, once for each
  time it was scanned, and not in \<open>notUploadedFiles\<close>; the call of \<open>processFile\<close> for
  \<open>f\<close> never calls \<open>readFileSync\<close> and never calls \<open>upload\<close>; and no call at all
  sends an upload for the key of \<open>f\<close>.
\<close>

theorem existing_key_is_skipped:
  assumes "getAWSConfig env \<noteq> None" and "filesToProcess env (localPath p) = Inr files"
    and "f \<in> set files" and "headObject env (bucketName p) (s3Key env p f) = None"
  shows "let st = final_state (uploadDirectory env p sched) in
           outcome_of env p f = Duplicate \<and>
           f \<in> set (duplicatedFiles st) \<and>
           count_list (duplicatedFiles st) f = count_list files f \<and>
           f \<notin> fst ` set (notUploadedFiles st) \<and>
           (\<forall>path. (Task f, Fs_readFileSync path) \<notin> set (events st)) \<and>
           (\<forall>b k body. (Task f, S3_upload b k body) \<notin> set (events st)) \<and>
           (\<forall>g body. (Task g, S3_upload (bucketName p) (s3Key env p f) body) \<notin> set (events st))"
proof -
  let ?st = "final_state (uploadDirectory env p sched)"
  have dup: "outcome_of env p f = Duplicate"
    using assms(4) by (simp add: outcome_of_def)
  have nf: "\<not> head_not_found env p f"
    using assms(4) by (simp add: head_not_found_def)
  have "f \<in> set (duplicatedFiles ?st)"
    using dup assms(3) by (simp add: set_buckets(1) [OF assms(1,2)])
  moreover have "count_list (duplicatedFiles ?st) f = count_list files f"
    using dup by (simp add: set_buckets(3) [OF assms(1,2)])
  moreover have "f \<notin> fst ` set (notUploadedFiles ?st)"
    using dup by (auto simp: set_buckets(2) [OF assms(1,2)])
  moreover have "(Task f, Fs_readFileSync path) \<notin> set (events ?st)" for path
    using final_permitted [OF assms(1,2), of f "Fs_readFileSync path" sched] nf
    by (auto simp: permitted_def)
  moreover have "(Task f, S3_upload b k body) \<notin> set (events ?st)" for b k body
    using final_permitted [OF assms(1,2), of f "S3_upload b k body" sched] nf
    by (auto simp: permitted_def)
  moreover have "(Task g, S3_upload (bucketName p) (s3Key env p f) body) \<notin> set (events ?st)" for g body
    using final_permitted [OF assms(1,2), of g "S3_upload (bucketName p) (s3Key env p f) body" sched] assms(4)
    by (auto simp: permitted_def head_not_found_def)
  ultimately show ?thesis using dup by (simp add: Let_def)
qed

theorem existing_key_is_skipped_witness:
  "getAWSConfig demo_env \<noteq> None \<and>
   filesToProcess demo_env (localPath demo_params) = Inr [''a.txt'', ''b.txt'', ''c.txt'', ''d.txt''] \<and>
   ''b.txt'' \<in> set [''a.txt'', ''b.txt'', ''c.txt'', ''d.txt''] \<and>
   headObject demo_env (bucketName demo_params) (s3Key demo_env demo_params ''b.txt'') = None \<and>
   ''b.txt'' \<in> set (duplicatedFiles (final_state (uploadDirectory demo_env demo_params [3, 0, 1]))) \<and>
   (Task ''b.txt'', S3_upload ''my-bucket'' ''photos/b.txt'' ''data'')
     \<notin> set (events (final_state (uploadDirectory demo_env demo_params [3, 0, 1])))"
proof -
  have h1: "getAWSConfig demo_env \<noteq> None"
    by code_simp
  have h2: "filesToProcess demo_env (localPath demo_params) =
              Inr [''a.txt'', ''b.txt'', ''c.txt'', ''d.txt'']"
    by code_simp
  have h3: "''b.txt'' \<in> set [''a.txt'', ''b.txt'', ''c.txt'', ''d.txt'']"
    by simp
  have h4: "headObject demo_env (bucketName demo_params) (s3Key demo_env demo_params ''b.txt'') = None"
    by code_simp
  show ?thesis
    using h1 h2 h4 existing_key_is_skipped [OF h1 h2 h3 h4, of "[3, 0, 1]"]
    by (simp add: Let_def)
qed

text \<open>
  C3.  When the credentials are set, the scan gives \<open>files\<close>, and \<open>headObject\<close>
  rejects with \<open>err\<close> for the key of a file \<open>f\<close> of the scan, then in every run:
  if the code of \<open>err\<close> is not \<open>NotFound\<close>, \<open>f\<close> is recorded in \<open>notUploadedFiles\<close>
  with the message \<open>Failed to check S3 status:\<close> followed by the code (or the message)
  of \<open>err\<close>, and its call neither reads the file nor sends an upload; if the code is
  \<open>NotFound\<close>, its call reads the file and, when the read gives \<open>body\<close>, sends the
  upload of \<open>body\<close> to the key; \<open>f\<close> is then counted as uploaded when the upload
  resolves, and recorded in \<open>notUploadedFiles\<close> with the message of the upload's error
  when it rejects.  Every read and every upload of the run belongs to a call whose check
  was rejected with \<open>NotFound\<close>.
\<close>

theorem failed_check_never_uploads:
  assumes "getAWSConfig env \<noteq> None" and "filesToProcess env (localPath p) = Inr files"
    and "f \<in> set files" and "headObject env (bucketName p) (s3Key env p f) = Some err"
  shows "let st = final_state (uploadDirectory env p sched) in
           (err_code err \<noteq> Some ''NotFound'' \<longrightarrow>
              (f, Str (''Failed to check S3 status: '' @ code_or_message err)) \<in> set (notUploadedFiles st) \<and>
              f \<notin> set (duplicatedFiles st) \<and>
              outcome_of env p f = Failed (Str (''Failed to check S3 status: '' @ code_or_message err)) \<and>
              (\<forall>path. (Task f, Fs_readFileSync path) \<notin> set (events st)) \<and>
              (\<forall>b k body. (Task f, S3_upload b k body) \<notin> set (events st))) \<and>
           (err_code err = Some ''NotFound'' \<longrightarrow>
              (Task f, Fs_readFileSync (localFilePath env p f)) \<in> set (events st) \<and>
              f \<notin> set (duplicatedFiles st) \<and>
              (\<forall>body. readFileSync env (localFilePath env p f) = Inr body \<longrightarrow>
                 (Task f, S3_upload (bucketName p) (s3Key env p f) body) \<in> set (events st) \<and>
                 (upload env (bucketName p) (s3Key env p f) body = None \<longrightarrow>
                    outcome_of env p f = Uploaded \<and> f \<notin> fst ` set (notUploadedFiles st)) \<and>
                 (\<forall>uploadError. upload env (bucketName p) (s3Key env p f) body = Some uploadError \<longrightarrow>
                    outcome_of env p f = Failed (err_message uploadError) \<and>
                    (f, err_message uploadError) \<in> set (notUploadedFiles st)))) \<and>
           (\<forall>g path. (Task g, Fs_readFileSync path) \<in> set (events st) \<longrightarrow> head_not_found env p g) \<and>
           (\<forall>g b k body. (Task g, S3_upload b k body) \<in> set (events st) \<longrightarrow> head_not_found env p g) \<and>
           uploadedCount st = length (filter (\<lambda>f. outcome_of env p f = Uploaded) files)"
proof -
  let ?st = "final_state (uploadDirectory env p sched)"
  note sb = set_buckets [OF assms(1,2), of sched]
  have other: "(f, Str (''Failed to check S3 status: '' @ code_or_message err)) \<in> set (notUploadedFiles ?st) \<and>
              f \<notin> set (duplicatedFiles ?st) \<and>
              outcome_of env p f = Failed (Str (''Failed to check S3 status: '' @ code_or_message err)) \<and>
              (\<forall>path. (Task f, Fs_readFileSync path) \<notin> set (events ?st)) \<and>
              (\<forall>b k body. (Task f, S3_upload b k body) \<notin> set (events ?st))"
    if c: "err_code err \<noteq> Some ''NotFound''"
  proof -
    have o: "outcome_of env p f = Failed (Str (''Failed to check S3 status: '' @ code_or_message err))"
      using assms(4) c by (simp add: outcome_of_def)
    have nf: "\<not> head_not_found env p f"
      using assms(4) c by (simp add: head_not_found_def)
    have "(Task f, Fs_readFileSync path) \<notin> set (events ?st)" for path
      using final_permitted [OF assms(1,2), of f "Fs_readFileSync path" sched] nf
      by (auto simp: permitted_def)
    moreover have "(Task f, S3_upload b k body) \<notin> set (events ?st)" for b k body
      using final_permitted [OF assms(1,2), of f "S3_upload b k body" sched] nf
      by (auto simp: permitted_def)
    ultimately show ?thesis using o assms(3) by (simp add: sb(1,2))
  qed
  have found: "(Task f, Fs_readFileSync (localFilePath env p f)) \<in> set (events ?st) \<and>
              f \<notin> set (duplicatedFiles ?st) \<and>
              (\<forall>body. readFileSync env (localFilePath env p f) = Inr body \<longrightarrow>
                 (Task f, S3_upload (bucketName p) (s3Key env p f) body) \<in> set (events ?st) \<and>
                 (upload env (bucketName p) (s3Key env p f) body = None \<longrightarrow>
                    outcome_of env p f = Uploaded \<and> f \<notin> fst ` set (notUploadedFiles ?st)) \<and>
                 (\<forall>uploadError. upload env (bucketName p) (s3Key env p f) body = Some uploadError \<longrightarrow>
                    outcome_of env p f = Failed (err_message uploadError) \<and>
                    (f, err_message uploadError) \<in> set (notUploadedFiles ?st)))"
    if c: "err_code err = Some ''NotFound''"
  proof -
    have nf: "head_not_found env p f"
      using assms(4) c by (simp add: head_not_found_def)
    have ph: "past_head env p f (events ?st)"
      using engine_result_live(2) [OF assms(3), of env p sched] nf
      by (auto simp: past_head_def final_task_events [OF assms(1,2)] split: sum.splits)
    have "outcome_of env p f \<noteq> Duplicate"
      using assms(4) c by (simp add: outcome_of_def split: sum.splits option.splits)
    then have nd: "f \<notin> set (duplicatedFiles ?st)" by (simp add: sb(1))
    show ?thesis
      using ph nf nd assms(3,4) c
      by (auto simp: past_head_def sb(2) outcome_of_def)
  qed
  have "head_not_found env p g" if "(Task g, Fs_readFileSync path) \<in> set (events ?st)" for g path
    using final_permitted [OF assms(1,2) that] by (simp add: permitted_def)
  moreover have "head_not_found env p g" if "(Task g, S3_upload b k body) \<in> set (events ?st)" for g b k body
    using final_permitted [OF assms(1,2) that] by (simp add: permitted_def)
  moreover have "uploadedCount ?st = length (filter (\<lambda>f. outcome_of env p f = Uploaded) files)"
    by (simp add: final_buckets [OF assms(1,2)] engine_result_buckets)
  ultimately show ?thesis using other found unfolding Let_def by blast
qed

theorem failed_check_never_uploads_witness:
  "getAWSConfig demo_env \<noteq> None \<and>
   filesToProcess demo_env (localPath demo_params) = Inr [''a.txt'', ''b.txt'', ''c.txt'', ''d.txt''] \<and>
   ''c.txt'' \<in> set [''a.txt'', ''b.txt'', ''c.txt'', ''d.txt''] \<and>
   headObject demo_env (bucketName demo_params) (s3Key demo_env demo_params ''c.txt'') =
     Some \<lparr>err_code = Some ''Forbidden'', err_message = Null\<rparr> \<and>
   (''c.txt'', Str ''Failed to check S3 status: Forbidden'')
     \<in> set (notUploadedFiles (final_state (uploadDirectory demo_env demo_params [3, 0, 1]))) \<and>
   ''d.txt'' \<in> set [''a.txt'', ''b.txt'', ''c.txt'', ''d.txt''] \<and>
   headObject demo_env (bucketName demo_params) (s3Key demo_env demo_params ''d.txt'') =
     Some \<lparr>err_code = Some ''NotFound'', err_message = Null\<rparr> \<and>
   readFileSync demo_env (localFilePath demo_env demo_params ''d.txt'') = Inr ''data'' \<and>
   upload demo_env (bucketName demo_params) (s3Key demo_env demo_params ''d.txt'') ''data'' =
     Some \<lparr>err_code = Some ''AccessDenied'', err_message = Str ''AccessDenied''\<rparr> \<and>
   (''d.txt'', Str ''AccessDenied'')
     \<in> set (notUploadedFiles (final_state (uploadDirectory demo_env demo_params [3, 0, 1])))"
proof -
  have h1: "getAWSConfig demo_env \<noteq> None"
    by code_simp
  have h2: "filesToProcess demo_env (localPath demo_params) =
              Inr [''a.txt'', ''b.txt'', ''c.txt'', ''d.txt'']"
    by code_simp
  have c3: "''c.txt'' \<in> set [''a.txt'', ''b.txt'', ''c.txt'', ''d.txt'']"
    and d3: "''d.txt'' \<in> set [''a.txt'', ''b.txt'', ''c.txt'', ''d.txt'']"
    by simp_all
  have c4: "headObject demo_env (bucketName demo_params) (s3Key demo_env demo_params ''c.txt'') =
              Some \<lparr>err_code = Some ''Forbidden'', err_message = Null\<rparr>"
    by code_simp
  have d4: "headObject demo_env (bucketName demo_params) (s3Key demo_env demo_params ''d.txt'') =
              Some \<lparr>err_code = Some ''NotFound'', err_message = Null\<rparr>"
    by code_simp
  have d5: "readFileSync demo_env (localFilePath demo_env demo_params ''d.txt'') = Inr ''data''"
    by code_simp
  have d6: "upload demo_env (bucketName demo_params) (s3Key demo_env demo_params ''d.txt'') ''data'' =
              Some \<lparr>err_code = Some ''AccessDenied'', err_message = Str ''AccessDenied''\<rparr>"
    by code_simp
  have "(''c.txt'', Str ''Failed to check S3 status: Forbidden'')
          \<in> set (notUploadedFiles (final_state (uploadDirectory demo_env demo_params [3, 0, 1])))"
    using failed_check_never_uploads [OF h1 h2 c3 c4, of "[3, 0, 1]"]
    by (simp add: Let_def code_or_message_def)
  moreover have "(''d.txt'', Str ''AccessDenied'')
          \<in> set (notUploadedFiles (final_state (uploadDirectory demo_env demo_params [3, 0, 1])))"
    using failed_check_never_uploads [OF h1 h2 d3 d4, of "[3, 0, 1]"] d5 d6
    by (simp add: Let_def)
  ultimately show ?thesis
    using h1 h2 c4 d4 d5 d6 by simp
qed

text \<open>
  C4 (as amended).  The exit code of \<open>node uploader.js upload ...\<close> is 0 exactly when
  three arguments follow the command and the three credentials are set, and 1
  otherwise.  So it is 0 whatever happens to the single files, and also when the scan
  of the local directory fails: the catch block prints the error and the function
  returns.  It is 1 on a wrong number of arguments and on missing credentials.
\<close>

theorem upload_exit_code:
  "fst (main env (''upload'' # rest) sched) =
     (if length rest = 3 \<and> getAWSConfig env \<noteq> None then 0 else 1) \<and>
   (length rest = 3 \<and> getAWSConfig env \<noteq> None \<and> filesToProcess env (rest ! 0) = Inl error
    \<longrightarrow> main env (''upload'' # rest) sched =
          (0, map (\<lambda>m. (Main_body, Console_log m))
                [Text ''Starting upload process...'',
                 LocalDirectory (rest ! 0),
                 S3Bucket (rest ! 1),
                 S3DestinationPath (rest ! 2)] @
              (Main_body, Console_error (UnexpectedError (err_message error))) #
              (if err_code error = Some ''ENOENT''
               then [(Main_body, Console_error (LocalDirectoryNotFound (rest ! 0)))]
               else [])))"
proof -
  let ?p = "\<lparr>localPath = rest ! 0, bucketName = rest ! 1, s3Path = rest ! 2\<rparr>"
  have code: "fst (process_end (uploadDirectory env ?p sched)) =
                (if getAWSConfig env \<noteq> None then 0 else 1)"
  proof (cases "getAWSConfig env = None")
    case True
    then show ?thesis
      using uploadDirectory_no_config [OF True, of ?p sched] by (simp add: process_end_def)
  next
    case False
    show ?thesis
    proof (cases "filesToProcess env (localPath ?p)")
      case (Inl error)
      show ?thesis
        using False uploadDirectory_scan_failed [OF False Inl, of sched] by (simp add: process_end_def)
    next
      case (Inr files)
      show ?thesis
        using False uploadDirectory_scanned [OF False Inr, of sched] by (simp add: process_end_def)
    qed
  qed
  have failed: "main env (''upload'' # rest) sched =
          (0, map (\<lambda>m. (Main_body, Console_log m))
                [Text ''Starting upload process...'',
                 LocalDirectory (rest ! 0),
                 S3Bucket (rest ! 1),
                 S3DestinationPath (rest ! 2)] @
              (Main_body, Console_error (UnexpectedError (err_message error))) #
              (if err_code error = Some ''ENOENT''
               then [(Main_body, Console_error (LocalDirectoryNotFound (rest ! 0)))]
               else []))"
    if "length rest = 3" and cfg: "getAWSConfig env \<noteq> None"
      and "filesToProcess env (rest ! 0) = Inl error"
  proof -
    have scan: "filesToProcess env (localPath ?p) = Inl error" using that(3) by simp
    show ?thesis
      using that(1) uploadDirectory_scan_failed [OF cfg scan, of sched]
      by (simp add: main_def process_end_def catch_block_def prelude_def initial_state_def Let_def)
  qed
  have "fst (main env (''upload'' # rest) sched) =
     (if length rest = 3 \<and> getAWSConfig env \<noteq> None then 0 else 1)"
    using code by (simp add: main_def)
  then show ?thesis using failed by blast
qed

theorem upload_exit_code_witness:
  "length [''/nowhere'', ''my-bucket'', ''photos''] = 3 \<and>
   getAWSConfig demo_env \<noteq> None \<and>
   filesToProcess demo_env ([''/nowhere'', ''my-bucket'', ''photos''] ! 0) =
     Inl \<lparr>err_code = Some ''ENOENT'', err_message = Str (''ENOENT: no such file or directory, scandir '' @ [CHR 0x27] @ ''/nowhere'' @ [CHR 0x27])\<rparr> \<and>
   main demo_env [''upload'', ''/nowhere'', ''my-bucket'', ''photos''] [] =
     (0, [(Main_body, Console_log (Text ''Starting upload process...'')),
          (Main_body, Console_log (LocalDirectory ''/nowhere'')),
          (Main_body, Console_log (S3Bucket ''my-bucket'')),
          (Main_body, Console_log (S3DestinationPath ''photos'')),
          (Main_body, Console_error (UnexpectedError (Str (''ENOENT: no such file or directory, scandir '' @ [CHR 0x27] @ ''/nowhere'' @ [CHR 0x27])))),
          (Main_body, Console_error (LocalDirectoryNotFound ''/nowhere''))])"
proof -
  have h1: "getAWSConfig demo_env \<noteq> None"
    by code_simp
  have h2: "filesToProcess demo_env ([''/nowhere'', ''my-bucket'', ''photos''] ! 0) =
     Inl \<lparr>err_code = Some ''ENOENT'', err_message = Str (''ENOENT: no such file or directory, scandir '' @ [CHR 0x27] @ ''/nowhere'' @ [CHR 0x27])\<rparr>"
    by code_simp
  show ?thesis
    using h1 h2
      upload_exit_code [of demo_env "[''/nowhere'', ''my-bucket'', ''photos'']" "[]"
        "\<lparr>err_code = Some ''ENOENT'', err_message = Str (''ENOENT: no such file or directory, scandir '' @ [CHR 0x27] @ ''/nowhere'' @ [CHR 0x27])\<rparr>"]
    by simp
qed

text \<open>
  The run that C4 is amended for: the local path does not exist, the scan fails, and
  the exit code is 0.
\<close>

theorem enumeration_failure_exits_zero:
  "filesToProcess demo_env ''/nowhere'' =
     Inl \<lparr>err_code = Some ''ENOENT'', err_message = Str (''ENOENT: no such file or directory, scandir '' @ [CHR 0x27] @ ''/nowhere'' @ [CHR 0x27])\<rparr> \<and>
   fst (main demo_env [''upload'', ''/nowhere'', ''my-bucket'', ''photos''] []) = 0"
  by code_simp

text \<open>
  C5 (as amended).  When the credentials are set and the scan of the local path fails
  with \<open>error\<close> (thrown by \<open>readdirSync\<close>, or by \<open>statSync\<close> for an entry), the run
  ends before any call of \<open>processFile\<close>: it resolves with empty buckets after the four
  lines of the start and the line \<open>An unexpected error occurred:\<close> with the message of
  the error, followed by the line \<open>The local directory ... was not found.\<close> exactly
  when the code of the error is \<open>ENOENT\<close>.  No request is sent and no report file is
  written.  A path that does not exist makes \<open>readdirSync\<close> throw \<open>ENOENT\<close>; a path
  that is not a directory makes it throw \<open>ENOTDIR\<close>, and then only the first of the two
  lines is printed.
\<close>

theorem scan_failure_aborts:
  assumes "getAWSConfig env \<noteq> None" and "filesToProcess env (localPath p) = Inl error"
  shows "uploadDirectory env p sched =
           Returned
             \<lparr>uploadedCount = 0, duplicatedFiles = [], notUploadedFiles = [], processedCount = 0,
              events =
                map (\<lambda>m. (Main_body, Console_log m))
                  [Text ''Starting upload process...'',
                   LocalDirectory (localPath p),
                   S3Bucket (bucketName p),
                   S3DestinationPath (s3Path p)] @
                (Main_body, Console_error (UnexpectedError (err_message error))) #
                (if err_code error = Some ''ENOENT''
                 then [(Main_body, Console_error (LocalDirectoryNotFound (localPath p)))]
                 else [])\<rparr> \<and>
         ((Main_body, Console_error (LocalDirectoryNotFound (localPath p)))
            \<in> set (events (final_state (uploadDirectory env p sched)))
          \<longleftrightarrow> err_code error = Some ''ENOENT'') \<and>
         (\<forall>thrown. readdirSync env (localPath p) = Inl thrown \<longrightarrow> error = thrown)"
proof -
  have "\<forall>thrown. readdirSync env (localPath p) = Inl thrown \<longrightarrow> error = thrown"
    using assms(2) by (auto simp: filesToProcess_def)
  then show ?thesis
    by (auto simp: uploadDirectory_scan_failed [OF assms] catch_block_def prelude_def
        initial_state_def Let_def emit_def final_state_def)
qed

theorem scan_failure_aborts_witness:
  "getAWSConfig demo_env \<noteq> None \<and>
   filesToProcess demo_env (localPath (demo_params\<lparr>localPath := ''/nowhere''\<rparr>)) =
     Inl \<lparr>err_code = Some ''ENOENT'', err_message = Str (''ENOENT: no such file or directory, scandir '' @ [CHR 0x27] @ ''/nowhere'' @ [CHR 0x27])\<rparr> \<and>
   (Main_body, Console_error (LocalDirectoryNotFound ''/nowhere''))
     \<in> set (events (final_state (uploadDirectory demo_env (demo_params\<lparr>localPath := ''/nowhere''\<rparr>) [])))"
proof -
  have h1: "getAWSConfig demo_env \<noteq> None"
    by code_simp
  have h2: "filesToProcess demo_env (localPath (demo_params\<lparr>localPath := ''/nowhere''\<rparr>)) =
     Inl \<lparr>err_code = Some ''ENOENT'', err_message = Str (''ENOENT: no such file or directory, scandir '' @ [CHR 0x27] @ ''/nowhere'' @ [CHR 0x27])\<rparr>"
    by code_simp
  have "(Main_body, Console_error (LocalDirectoryNotFound (localPath (demo_params\<lparr>localPath := ''/nowhere''\<rparr>))))
     \<in> set (events (final_state (uploadDirectory demo_env (demo_params\<lparr>localPath := ''/nowhere''\<rparr>) [])))"
    using scan_failure_aborts [OF h1 h2, of "[]"] by (simp add: final_state_def)
  then show ?thesis
    using h1 h2 by simp
qed

text \<open>
  The run that C5 is amended for: the local path is a regular file, \<open>readdirSync\<close>
  throws \<open>ENOTDIR\<close>, and the line about the directory that was not found is not
  printed.
\<close>

theorem not_a_directory_no_diagnostic:
  "readdirSync demo_env ''/x/y/a.txt'' =
     Inl \<lparr>err_code = Some ''ENOTDIR'', err_message = Str (''ENOTDIR: not a directory, scandir '' @ [CHR 0x27] @ ''/x/y/a.txt'' @ [CHR 0x27])\<rparr> \<and>
   (Main_body, Console_error (LocalDirectoryNotFound ''/x/y/a.txt''))
     \<notin> set (events (final_state
          (uploadDirectory demo_env
             \<lparr>localPath = ''/x/y/a.txt'', bucketName = ''my-bucket'', s3Path = ''photos''\<rparr> [])))"
  by code_simp

text \<open>
  C6.  \<open>CONCURRENT_UPLOADS\<close> is 50.  The loop of \<open>uploadDirectory\<close> is the run, one
  after the other, of the consecutive batches of at most \<open>CONCURRENT_UPLOADS\<close> files
  into which \<open>chunks\<close> cuts the list (no batch is empty, and together they are the
  list).  The run of a batch first sends the requests of all its files, in their order,
  and then waits: while it waits no request is sent, and when it ends as many progress
  lines have been printed as the batch has files, so every call of the batch is over
  before the next batch starts.  At every moment of a run of \<open>uploadDirectory\<close>, for
  every schedule, the number of calls that have sent their request and not yet printed
  their progress line is at most \<open>CONCURRENT_UPLOADS\<close>.
\<close>

theorem windowed_batches:
  "CONCURRENT_UPLOADS = 50 \<and>
   upload_loop env p T files [] sched st =
     run_batches env p T (chunks CONCURRENT_UPLOADS files) sched st \<and>
   concat (chunks CONCURRENT_UPLOADS files) = files \<and>
   list_all (\<lambda>b. b \<noteq> [] \<and> length b \<le> CONCURRENT_UPLOADS) (chunks CONCURRENT_UPLOADS files) \<and>
   (\<exists>tail. events (snd (run_batch env p T batch sched st)) =
        events st @ map (\<lambda>f. (Task f, S3_headObject (bucketName p) (s3Key env p f))) batch @ tail \<and>
      filter is_request tail = [] \<and> length (filter is_progress tail) = length batch) \<and>
   (\<forall>k. in_flight (take k (events (final_state (uploadDirectory env p sched))))
          \<le> int CONCURRENT_UPLOADS)"
proof -
  have "upload_loop env p T files [] sched st =
          run_batches env p T (chunks CONCURRENT_UPLOADS files) sched st"
    using loop_batches [of "[]" env p T files sched st]
    by (simp add: start_all_def CONCURRENT_UPLOADS_def)
  moreover have "concat (chunks CONCURRENT_UPLOADS files) = files"
    by (simp add: concat_chunks CONCURRENT_UPLOADS_def)
  moreover have "in_flight (take k (events (final_state (uploadDirectory env p sched))))
          \<le> int CONCURRENT_UPLOADS" for k
    using peak_ok_prefix [OF run_peak, where k = k] by simp
  ultimately show ?thesis
    using chunks_sizes [of CONCURRENT_UPLOADS files] run_batch_events [of env p T batch sched st]
    by (simp add: CONCURRENT_UPLOADS_def)
qed

text \<open>
  C7.  The remote key of a file is \<open>path.join(s3Path, fileName)\<close> with every
  backslash turned into a forward slash, whatever the host's \<open>path.join\<close> is, so no
  key holds a backslash.  The file \<open>a.txt\<close> under the prefix \<open>photos\<close> gets the key
  \<open>photos/a.txt\<close>: on a POSIX host, and on every host whose \<open>path.join\<close> puts a
  slash or a backslash between the two names.
\<close>

theorem s3Key_forward_slashes:
  "s3Key env p fileName =
     map (\<lambda>c. if c = CHR 0x5C then CHR ''/'' else c) (path_join env (s3Path p) fileName) \<and>
   CHR 0x5C \<notin> set (s3Key env p fileName) \<and>
   s3Key (env\<lparr>path_join := posix_join\<rparr>) (p\<lparr>s3Path := ''photos''\<rparr>) ''a.txt'' = ''photos/a.txt'' \<and>
   (path_join env ''photos'' ''a.txt'' = ''photos/a.txt'' \<or>
    path_join env ''photos'' ''a.txt'' = ''photos'' @ [CHR 0x5C] @ ''a.txt''
    \<longrightarrow> s3Key env (p\<lparr>s3Path := ''photos''\<rparr>) ''a.txt'' = ''photos/a.txt'')"
proof -
  have posix: "posix_join ''photos'' ''a.txt'' = ''photos/a.txt''"
    by code_simp
  show ?thesis
    by (auto simp: s3Key_def posix)
qed

theorem s3Key_forward_slashes_witness:
  "path_join demo_env ''photos'' ''a.txt'' = ''photos/a.txt'' \<and>
   s3Key demo_env demo_params ''a.txt'' = ''photos/a.txt''"
proof -
  have h: "path_join demo_env ''photos'' ''a.txt'' = ''photos/a.txt''"
    by code_simp
  have "demo_params\<lparr>s3Path := ''photos''\<rparr> = demo_params"
    by (simp add: demo_params_def)
  moreover have "path_join demo_env ''photos'' ''a.txt'' = ''photos/a.txt'' \<or>
      path_join demo_env ''photos'' ''a.txt'' = ''photos'' @ [CHR 0x5C] @ ''a.txt''
      \<longrightarrow> s3Key demo_env (demo_params\<lparr>s3Path := ''photos''\<rparr>) ''a.txt'' = ''photos/a.txt''"
    using s3Key_forward_slashes [of demo_env demo_params "''a.txt''"] by blast
  ultimately show ?thesis using h by simp
qed

text \<open>
  C8 (as amended).  When the credentials are set and the scan gives \<open>files\<close>, the
  calls of \<open>fs.writeFileSync\<close> of a run are, in this order and for every schedule: one
  for \<open>duplicated_<timestamp>.json\<close> with \<open>JSON.stringify(duplicatedFiles, null, 2)\<close>
  exactly when \<open>duplicatedFiles\<close> is not empty; and one for
  \<open>not_uploaded_files_<timestamp>.json\<close> with
  \<open>JSON.stringify(notUploadedFiles, null, 2)\<close> exactly when \<open>notUploadedFiles\<close> is
  not empty and the first call, if it was made, did not throw.  The files written are
  those of the calls that do not throw.  Both names hold the same timestamp: the
  reading of the clock taken once as an ISO string, with every colon and every dot
  replaced by a hyphen.  The content is pretty-printed: a bracket on a line of its own,
  then the elements, each starting on a new line, indented by two spaces and followed
  by a comma unless it is the last, then the closing bracket on a line of its own.  A
  file name is written as one quoted string, without a line break, from which the name
  can be read back; a failure is written as an object with the property \<open>file\<close> and
  the property \<open>error\<close>, whose value is a quoted string or \<open>null\<close>, and which is left
  out when the message is \<open>undefined\<close>.
\<close>

theorem report_files_written:
  assumes "getAWSConfig env \<noteq> None" and "filesToProcess env (localPath p) = Inr files"
  shows "let st = final_state (uploadDirectory env p sched);
             duplicatedReport =
               (''duplicated_'' @ timestamp env @ ''.json'', stringify_names (duplicatedFiles st));
             notUploadedReport =
               (''not_uploaded_files_'' @ timestamp env @ ''.json'',
                stringify_records (notUploadedFiles st));
             firstWritten =
               (duplicatedFiles st = [] \<or>
                writeFileSync env (fst duplicatedReport) (snd duplicatedReport) = None)
         in write_calls (events st) =
              (if duplicatedFiles st \<noteq> [] then [duplicatedReport] else []) @
              (if notUploadedFiles st \<noteq> [] \<and> firstWritten then [notUploadedReport] else []) \<and>
            files_written env (events st) =
              (if duplicatedFiles st \<noteq> [] \<and> firstWritten then [duplicatedReport] else []) @
              (if notUploadedFiles st \<noteq> [] \<and> firstWritten \<and>
                  writeFileSync env (fst notUploadedReport) (snd notUploadedReport) = None
               then [notUploadedReport] else []) \<and>
            timestamp env =
              map (\<lambda>c. if c = CHR '':'' \<or> c = CHR ''.'' then CHR ''-'' else c) (toISOString env) \<and>
            CHR '':'' \<notin> set (timestamp env) \<and> CHR ''.'' \<notin> set (timestamp env) \<and>
            (names \<noteq> [] \<longrightarrow>
               stringify_names names =
                 ''['' @ [CHR 0x0A] @
                 concat (map (\<lambda>s. ''  '' @ json_quote s @ [CHR '','', CHR 0x0A]) (butlast names)) @
                 ''  '' @ json_quote (last names) @ [CHR 0x0A] @ '']'') \<and>
            (records \<noteq> [] \<longrightarrow>
               stringify_records records =
                 ''['' @ [CHR 0x0A] @
                 concat (map (\<lambda>r. stringify_record r @ [CHR '','', CHR 0x0A]) (butlast records)) @
                 stringify_record (last records) @ [CHR 0x0A] @ '']'') \<and>
            stringify_record (f, Str m) =
              ''  {'' @ [CHR 0x0A] @
              ''    '' @ [CHR 0x22] @ ''file'' @ [CHR 0x22] @ '': '' @ json_quote f @ [CHR '','', CHR 0x0A] @
              ''    '' @ [CHR 0x22] @ ''error'' @ [CHR 0x22] @ '': '' @ json_quote m @ [CHR 0x0A] @
              ''  }'' \<and>
            stringify_record (f, Null) =
              ''  {'' @ [CHR 0x0A] @
              ''    '' @ [CHR 0x22] @ ''file'' @ [CHR 0x22] @ '': '' @ json_quote f @ [CHR '','', CHR 0x0A] @
              ''    '' @ [CHR 0x22] @ ''error'' @ [CHR 0x22] @ '': null'' @ [CHR 0x0A] @
              ''  }'' \<and>
            stringify_record (f, Undefined) =
              ''  {'' @ [CHR 0x0A] @
              ''    '' @ [CHR 0x22] @ ''file'' @ [CHR 0x22] @ '': '' @ json_quote f @ [CHR 0x0A] @
              ''  }'' \<and>
            json_unquote (json_quote s) = Some s \<and>
            CHR 0x0A \<notin> set (json_quote s)"
proof -
  let ?st = "final_state (uploadDirectory env p sched)"
  note calls = final_write_calls [OF assms, of sched]
  have names: "duplicatedLogFile env = ''duplicated_'' @ timestamp env @ ''.json''"
    "notUploadedLogFile env = ''not_uploaded_files_'' @ timestamp env @ ''.json''"
    by (simp_all add: duplicatedLogFile_def notUploadedLogFile_def)
  have written: "files_written env (events ?st) =
      filter (\<lambda>w. writeFileSync env (fst w) (snd w) = None) (write_calls (events ?st))"
    by (simp add: files_written_def)
  have ts: "timestamp env =
              map (\<lambda>c. if c = CHR '':'' \<or> c = CHR ''.'' then CHR ''-'' else c) (toISOString env)"
    by (simp add: timestamp_def)
  show ?thesis
    unfolding Let_def written calls names fst_conv snd_conv
    using timestamp_safe(1,2) [of env] ts stringify_names_explicit [of names]
      stringify_records_explicit [of records] stringify_record_explicit [of f]
      json_unquote_quote [of s] json_quote_one_line [of s]
    by auto
qed

theorem report_files_written_witness:
  "getAWSConfig report_env \<noteq> None \<and>
   filesToProcess report_env (localPath report_params) =
     Inr [''b'' @ [CHR 0x22] @ ''1.txt'', ''c.txt'', ''d.txt''] \<and>
   write_calls (events (final_state (uploadDirectory report_env report_params [1]))) =
     [(''duplicated_2026-11-03T10-15-30-123Z.json'',
       ''['' @ [CHR 0x0A] @
       ''  '' @ [CHR 0x22] @ ''b'' @ [CHR 0x5C, CHR 0x22] @ ''1.txt'' @ [CHR 0x22] @ [CHR 0x0A] @
       '']''),
      (''not_uploaded_files_2026-11-03T10-15-30-123Z.json'',
       ''['' @ [CHR 0x0A] @
       ''  {'' @ [CHR 0x0A] @
       ''    '' @ [CHR 0x22] @ ''file'' @ [CHR 0x22] @ '': '' @ [CHR 0x22] @ ''c.txt'' @ [CHR 0x22] @ '','' @ [CHR 0x0A] @
       ''    '' @ [CHR 0x22] @ ''error'' @ [CHR 0x22] @ '': '' @ [CHR 0x22] @
          ''Failed to check S3 status: Forbidden'' @ [CHR 0x22] @ [CHR 0x0A] @
       ''  },'' @ [CHR 0x0A] @
       ''  {'' @ [CHR 0x0A] @
       ''    '' @ [CHR 0x22] @ ''file'' @ [CHR 0x22] @ '': '' @ [CHR 0x22] @ ''d.txt'' @ [CHR 0x22] @ '','' @ [CHR 0x0A] @
       ''    '' @ [CHR 0x22] @ ''error'' @ [CHR 0x22] @ '': null'' @ [CHR 0x0A] @
       ''  }'' @ [CHR 0x0A] @
       '']'')]"
proof -
  let ?st = "final_state (uploadDirectory report_env report_params [1])"
  have h1: "getAWSConfig report_env \<noteq> None"
    by code_simp
  have h2: "filesToProcess report_env (localPath report_params) =
              Inr [''b'' @ [CHR 0x22] @ ''1.txt'', ''c.txt'', ''d.txt'']"
    by code_simp
  have d: "duplicatedFiles ?st = [''b'' @ [CHR 0x22] @ ''1.txt'']"
    by code_simp
  have n: "notUploadedFiles ?st =
             [(''c.txt'', Str ''Failed to check S3 status: Forbidden''), (''d.txt'', Null)]"
    by code_simp
  have t: "timestamp report_env = ''2026-11-03T10-15-30-123Z''"
    by code_simp
  have w: "writeFileSync report_env = (\<lambda>name content. None)"
    by (simp add: report_env_def demo_env_def)
  have sn: "stringify_names [''b'' @ [CHR 0x22] @ ''1.txt''] =
       ''['' @ [CHR 0x0A] @
       ''  '' @ [CHR 0x22] @ ''b'' @ [CHR 0x5C, CHR 0x22] @ ''1.txt'' @ [CHR 0x22] @ [CHR 0x0A] @
       '']''"
    by code_simp
  have sr: "stringify_records
              [(''c.txt'', Str ''Failed to check S3 status: Forbidden''), (''d.txt'', Null)] =
       ''['' @ [CHR 0x0A] @
       ''  {'' @ [CHR 0x0A] @
       ''    '' @ [CHR 0x22] @ ''file'' @ [CHR 0x22] @ '': '' @ [CHR 0x22] @ ''c.txt'' @ [CHR 0x22] @ '','' @ [CHR 0x0A] @
       ''    '' @ [CHR 0x22] @ ''error'' @ [CHR 0x22] @ '': '' @ [CHR 0x22] @
          ''Failed to check S3 status: Forbidden'' @ [CHR 0x22] @ [CHR 0x0A] @
       ''  },'' @ [CHR 0x0A] @
       ''  {'' @ [CHR 0x0A] @
       ''    '' @ [CHR 0x22] @ ''file'' @ [CHR 0x22] @ '': '' @ [CHR 0x22] @ ''d.txt'' @ [CHR 0x22] @ '','' @ [CHR 0x0A] @
       ''    '' @ [CHR 0x22] @ ''error'' @ [CHR 0x22] @ '': null'' @ [CHR 0x0A] @
       ''  }'' @ [CHR 0x0A] @
       '']''"
    by code_simp
  have "write_calls (events ?st) =
     [(''duplicated_'' @ timestamp report_env @ ''.json'',
       stringify_names [''b'' @ [CHR 0x22] @ ''1.txt'']),
      (''not_uploaded_files_'' @ timestamp report_env @ ''.json'',
       stringify_records
         [(''c.txt'', Str ''Failed to check S3 status: Forbidden''), (''d.txt'', Null)])]"
    using report_files_written [OF h1 h2, of "[1]"] d n w
    by (simp add: Let_def)
  then show ?thesis
    using h1 h2 t sn sr by simp
qed

text \<open>
  The run that C8 is amended for: writing the duplicates report throws, so the catch
  block ends the run; two failures are recorded, but the only call of
  \<open>fs.writeFileSync\<close> is the one for the duplicates report.
\<close>

theorem second_report_not_attempted:
  "notUploadedFiles (final_state (uploadDirectory locked_env demo_params [3, 0, 1])) =
     [(''c.txt'', Str ''Failed to check S3 status: Forbidden''), (''d.txt'', Str ''AccessDenied'')] \<and>
   map fst (write_calls (events (final_state (uploadDirectory locked_env demo_params [3, 0, 1])))) =
     [''duplicated_2026-11-03T10-15-30-123Z.json'']"
  by code_simp

text \<open>
  C9.  When the credentials are set and the scan gives \<open>files\<close>, then for every
  schedule and whatever the answers of S3 and of the file system are:
  \<open>uploadDirectory\<close> resolves (it neither ends the process nor rejects); every file
  of the scan has had its request sent; \<open>processedCount\<close> ends at the number of files;
  the progress lines are, in this order, those with the counts 1, 2, ... up to the
  number of files, each with the total, so the count reaches the total once when there
  is a file; and after all of them come the five lines of the summary, with the sizes
  of the three buckets, which add up to the number of files.
\<close>

theorem no_task_failure_aborts:
  assumes "getAWSConfig env \<noteq> None" and "filesToProcess env (localPath p) = Inr files"
  shows "let st = final_state (uploadDirectory env p sched) in
           uploadDirectory env p sched = Returned st \<and>
           (\<forall>f \<in> set files. requested env p f (events st)) \<and>
           processedCount st = length files \<and>
           progress_counts (events st) = map (\<lambda>k. (k, length files)) [1..<Suc (length files)] \<and>
           length (filter (\<lambda>x. fst x = snd x) (progress_counts (events st))) =
             (if files = [] then 0 else 1) \<and>
           (\<exists>before reports.
              events st = before @ summary_lines (length files) st @ reports \<and>
              progress_counts before = progress_counts (events st) \<and>
              progress_counts reports = []) \<and>
           uploadedCount st + length (duplicatedFiles st) + length (notUploadedFiles st) = length files"
proof -
  let ?st = "final_state (uploadDirectory env p sched)"
  let ?e = "engine_result env p files sched"
  have ret: "uploadDirectory env p sched = Returned ?st"
    using uploadDirectory_scanned [OF assms, of sched] by (simp add: final_state_def)
  obtain tail where t: "events ?st = events ?e @ summary_lines (length files) ?e @ tail"
    "\<forall>x \<in> set tail. quiet x"
    using final_events [OF assms] by blast
  have sl: "summary_lines (length files) ?e = summary_lines (length files) ?st"
    by (simp add: summary_lines_def final_buckets [OF assms])
  have pe: "progress_counts (events ?e) = map (\<lambda>k. (k, length files)) [1..<Suc (length files)]"
    by (rule engine_result_progress)
  have pst: "progress_counts (events ?st) = progress_counts (events ?e)"
    using quiet_progress [OF t(2)] quiet_progress [OF summary_lines_quiet, of "length files" ?e]
    by (simp add: t(1))
  have req: "\<forall>f \<in> set files. requested env p f (events ?st)"
    using engine_result_live(1) [of _ files env p sched]
    by (auto simp: requested_def final_task_events [OF assms])
  have once: "length (filter (\<lambda>x. fst x = snd x) (progress_counts (events ?st))) =
             (if files = [] then 0 else 1)"
    using reaches_total_once [of "length files"] by (simp add: pst pe)
  have ex: "\<exists>before reports.
              events ?st = before @ summary_lines (length files) ?st @ reports \<and>
              progress_counts before = progress_counts (events ?st) \<and>
              progress_counts reports = []"
    using t(1) sl pst quiet_progress [OF t(2)] by metis
  have sum: "uploadedCount ?st + length (duplicatedFiles ?st) + length (notUploadedFiles ?st) = length files"
    using engine_result_sum [of env p files sched] by (simp add: final_buckets [OF assms])
  show ?thesis
    unfolding Let_def
    using ret req pst pe once ex sum
    by (simp add: final_buckets [OF assms] engine_result_buckets(4))
qed

theorem no_task_failure_aborts_witness:
  "getAWSConfig demo_env \<noteq> None \<and>
   filesToProcess demo_env (localPath demo_params) = Inr [''a.txt'', ''b.txt'', ''c.txt'', ''d.txt''] \<and>
   progress_counts (events (final_state (uploadDirectory demo_env demo_params [3, 0, 1]))) =
     [(1, 4), (2, 4), (3, 4), (4, 4)]"
proof -
  have h1: "getAWSConfig demo_env \<noteq> None"
    by code_simp
  have h2: "filesToProcess demo_env (localPath demo_params) =
              Inr [''a.txt'', ''b.txt'', ''c.txt'', ''d.txt'']"
    by code_simp
  have "[1..<5] = [1, 2, 3, 4::nat]"
    by code_simp
  then show ?thesis
    using h1 h2 no_task_failure_aborts [OF h1 h2, of "[3, 0, 1]"]
    by (simp add: Let_def)
qed



end
